theory Spec2Isabelle
  imports Complex_Main "HOL-Library.Log_Nat"
begin

section \<open>Errors and colours\<close>

text \<open>
  The exceptions that can leave \<open>draw_qr\<close> (file \<open>fastapi_service/main.py\<close>):
  the explicit \<open>ValueError("Output too small ...")\<close>, the \<open>ValueError\<close> of the builtin
  \<open>int(s, 16)\<close> on an invalid literal, \<open>IndexError\<close> of a list access and
  \<open>ZeroDivisionError\<close> of \<open>//\<close>.
\<close>

datatype error = OutputTooSmall | InvalidLiteral | IndexError | ZeroDivisionError

type_synonym rgba = "int \<times> int \<times> int \<times> int"

subsection \<open>The builtins used by \<open>parse_hex_rgba\<close>\<close>

text \<open>
  Strings are lists of code points below 256; characters beyond that range (among them
  the Unicode decimal digits that \<open>int\<close> also accepts) are outside the model.
  \<open>str.strip()\<close> removes the characters for which \<open>str.isspace\<close> holds; below 256 these
  are 9..13, 28..32, 133 and 160. \<open>int\<close> skips fewer: of the ASCII characters only 9..13
  and 32, and the two others.
\<close>

definition is_space :: "char \<Rightarrow> bool" where
  "is_space c = (let n = (of_char c :: nat) in
     (9 \<le> n \<and> n \<le> 13) \<or> (28 \<le> n \<and> n \<le> 32) \<or> n = 133 \<or> n = 160)"

definition strip :: "string \<Rightarrow> string" where
  "strip s = rev (dropWhile is_space (rev (dropWhile is_space s)))"

definition is_int_space :: "char \<Rightarrow> bool" where
  "is_int_space c = (let n = (of_char c :: nat) in
     (9 \<le> n \<and> n \<le> 13) \<or> n = 32 \<or> n = 133 \<or> n = 160)"

definition int_strip :: "string \<Rightarrow> string" where
  "int_strip s = rev (dropWhile is_int_space (rev (dropWhile is_int_space s)))"

definition lstrip_hash :: "string \<Rightarrow> string" where
  "lstrip_hash s = dropWhile (\<lambda>c. c = CHR ''#'') s"

definition hex_val :: "char \<Rightarrow> int option" where
  "hex_val c = (let n = (of_char c :: int) in
     if 48 \<le> n \<and> n \<le> 57 then Some (n - 48)
     else if 97 \<le> n \<and> n \<le> 102 then Some (n - 87)
     else if 65 \<le> n \<and> n \<le> 70 then Some (n - 55)
     else None)"

text \<open>
  The digits of a literal: a single underscore may stand between two digits, nowhere else.
\<close>

fun hex_digits :: "int \<Rightarrow> string \<Rightarrow> int option" where
  "hex_digits acc [] = Some acc"
| "hex_digits acc (c # cs) =
     (if c = CHR ''_'' then
        (case cs of
           [] \<Rightarrow> None
         | d # ds \<Rightarrow> (case hex_val d of None \<Rightarrow> None | Some v \<Rightarrow> hex_digits (16 * acc + v) ds))
      else (case hex_val c of None \<Rightarrow> None | Some v \<Rightarrow> hex_digits (16 * acc + v) cs))"

definition hex_literal :: "string \<Rightarrow> int option" where
  "hex_literal w = (case w of
       [] \<Rightarrow> None
     | c # cs \<Rightarrow> (case hex_val c of None \<Rightarrow> None | Some v \<Rightarrow> hex_digits v cs))"

text \<open>
  \<open>int(s, 16)\<close>: surrounding whitespace is skipped, then an optional sign, then an optional
  prefix \<open>0x\<close> or \<open>0X\<close> (which one underscore may follow), then the digits. Anything else
  raises \<open>ValueError\<close>.
\<close>

definition py_int16 :: "string \<Rightarrow> error + int" where
  "py_int16 s =
     (let t = int_strip s;
          (neg, u) = (case t of
                        [] \<Rightarrow> (False, t)
                      | c # r \<Rightarrow> if c = CHR ''+'' then (False, r)
                                 else if c = CHR ''-'' then (True, r) else (False, t));
          w = (case u of
                 z # x # r \<Rightarrow>
                   if z = CHR ''0'' \<and> (x = CHR ''x'' \<or> x = CHR ''X'')
                   then (case r of [] \<Rightarrow> r | y # r' \<Rightarrow> if y = CHR ''_'' then r' else r)
                   else u
               | _ \<Rightarrow> u)
      in case hex_literal w of
           None \<Rightarrow> Inl InvalidLiteral
         | Some n \<Rightarrow> Inr (if neg then - n else n))"

subsection \<open>\<open>parse_hex_rgba\<close> and \<open>clamp\<close>\<close>

text \<open>
  The sequencing of calls that may raise: the first error is the result.
\<close>

definition bind_err :: "error + 'a \<Rightarrow> ('a \<Rightarrow> error + 'b) \<Rightarrow> error + 'b" where
  "bind_err x f = (case x of Inl e \<Rightarrow> Inl e | Inr v \<Rightarrow> f v)"

text \<open>
  The argument is a \<open>str\<close> field of the request model, so the \<open>isinstance\<close> test of the
  source is always passed. \<open>v[i] * 2\<close> is the character twice; \<open>v[a:b]\<close> is a slice.
\<close>

definition parse_hex_rgba :: "string \<Rightarrow> rgba \<Rightarrow> error + rgba" where
  "parse_hex_rgba val dflt =
     (let v = lstrip_hash (strip val) in
      if length v = 3 then
        bind_err (py_int16 [v ! 0, v ! 0]) (\<lambda>r.
        bind_err (py_int16 [v ! 1, v ! 1]) (\<lambda>g.
        bind_err (py_int16 [v ! 2, v ! 2]) (\<lambda>b.
        Inr (r, g, b, 255))))
      else if length v = 6 then
        bind_err (py_int16 (take 2 v)) (\<lambda>r.
        bind_err (py_int16 (take 2 (drop 2 v))) (\<lambda>g.
        bind_err (py_int16 (take 2 (drop 4 v))) (\<lambda>b.
        Inr (r, g, b, 255))))
      else if length v = 8 then
        bind_err (py_int16 (take 2 v)) (\<lambda>r.
        bind_err (py_int16 (take 2 (drop 2 v))) (\<lambda>g.
        bind_err (py_int16 (take 2 (drop 4 v))) (\<lambda>b.
        bind_err (py_int16 (take 2 (drop 6 v))) (\<lambda>a.
        Inr (r, g, b, a)))))
      else Inr dflt)"

definition clamp :: "rat \<Rightarrow> rat \<Rightarrow> rat \<Rightarrow> rat" where
  "clamp v lo hi = max lo (min hi v)"

section \<open>Floating-point arithmetic\<close>

text \<open>
  A Python \<open>float\<close> is a binary64 number. A finite one is a rational, and the result of an
  arithmetic operation is the exact result rounded to the nearest binary64 number, ties to
  the even significand. \<open>fl_round\<close> is that rounding for magnitudes below the overflow
  threshold (every float of a request is below 1 and every integer below the canvas size):
  the significand has 53 bits and the exponent of the last place is at least \<open>-1074\<close>.
\<close>

definition rne :: "rat \<Rightarrow> int" where
  "rne y = (let f = \<lfloor>y\<rfloor>; d = y - of_int f in
     if d < 1 / 2 then f else if 1 / 2 < d then f + 1 else if even f then f else f + 1)"

definition flog2 :: "rat \<Rightarrow> int" where
  "flog2 x = (if 1 \<le> x then bitlen \<lfloor>x\<rfloor> - 1 else - bitlen (\<lceil>1 / x\<rceil> - 1))"

definition pow2 :: "int \<Rightarrow> rat" where
  "pow2 e = (if 0 \<le> e then 2 ^ nat e else 1 / 2 ^ nat (- e))"

definition fl_round :: "rat \<Rightarrow> rat" where
  "fl_round x = (if x = 0 then 0 else
     let e = max (flog2 \<bar>x\<bar> - 52) (- 1074) in of_int (rne (x / pow2 e)) * pow2 e)"

definition fmul :: "rat \<Rightarrow> rat \<Rightarrow> rat" where
  "fmul a b = fl_round (a * b)"

definition fsub :: "rat \<Rightarrow> rat \<Rightarrow> rat" where
  "fsub a b = fl_round (a - b)"

text \<open>\<open>int(x)\<close> of a float truncates toward zero.\<close>

definition py_int :: "rat \<Rightarrow> int" where
  "py_int x = (if 0 \<le> x then \<lfloor>x\<rfloor> else \<lceil>x\<rceil>)"

text \<open>A decimal literal denotes the binary64 number nearest to it.\<close>

definition lit :: "rat \<Rightarrow> rat" where
  "lit q = fl_round q"

section \<open>The request and the QR matrix\<close>

text \<open>
  The fields of \<open>QRRequest\<close> that \<open>draw_qr\<close> reads. The fields \<open>text\<close> and
  \<open>error_correction\<close> are only passed to \<open>generate_matrix\<close>, which calls the external
  \<open>qrcode\<close> library; its result, the matrix \<open>m\<close> (a list of rows of booleans), is an
  argument of the model. Float fields are rationals.
\<close>

datatype hole_shape = Circle | RectangleShape

record request =
  rounded_finders :: bool
  dot_style :: bool
  foreground :: string
  background :: string
  hole :: bool
  hole_shape :: hole_shape
  hole_percentage :: rat
  logo_base64 :: "string option"
  use_logo :: bool
  pixel_size :: int
  rounded_canvas :: bool
  finder_round_ratio :: rat
  dot_margin :: rat
  quiet_zone_modules :: int

type_synonym matrix = "bool list list"

text \<open>
  The constraints that the request model declares for its fields (\<open>ge\<close>, \<open>le\<close>,
  \<open>Literal[1080]\<close>); every \<open>QRRequest\<close> instance built by validation satisfies them.
\<close>

definition valid_request :: "request \<Rightarrow> bool" where
  "valid_request req =
     (pixel_size req = 1080 \<and>
      1 \<le> quiet_zone_modules req \<and> quiet_zone_modules req \<le> 8 \<and>
      0 \<le> hole_percentage req \<and> hole_percentage req \<le> lit (1 / 5) \<and>
      0 \<le> finder_round_ratio req \<and> finder_round_ratio req \<le> 1 / 2 \<and>
      0 \<le> dot_margin req \<and> dot_margin req \<le> lit (49 / 100))"

text \<open>The defaults of the request model.\<close>

definition default_request :: request where
  "default_request =
     \<lparr>rounded_finders = True, dot_style = True,
      foreground = ''#000000'', background = ''#ffffff'',
      hole = False, hole_shape = Circle, hole_percentage = lit (1 / 10),
      logo_base64 = None, use_logo = False, pixel_size = 1080,
      rounded_canvas = True, finder_round_ratio = lit (45 / 100),
      dot_margin = lit (18 / 100), quiet_zone_modules = 4\<rparr>"

section \<open>Module geometry\<close>

text \<open>
  The local variables \<open>N\<close>, \<open>B\<close>, \<open>S\<close>, \<open>render_px\<close> and \<open>offset\<close> of \<open>draw_qr\<close>,
  which its nested functions close over.
\<close>

record geom =
  gN :: int
  gB :: int
  gS :: int
  render_px :: int
  offset :: int

definition resolve :: "request \<Rightarrow> matrix \<Rightarrow> error + geom" where
  "resolve req m =
     (let N = int (length m);
          B = quiet_zone_modules req;
          SIZE = pixel_size req;
          modules_total = N + 2 * B
      in if modules_total = 0 then Inl ZeroDivisionError
         else let S = SIZE div modules_total in
           if S < 1 then Inl OutputTooSmall
           else Inr \<lparr>gN = N, gB = B, gS = S, render_px = modules_total * S,
                       offset = (SIZE - modules_total * S) div 2\<rparr>)"

type_synonym box = "int \<times> int \<times> int \<times> int"

definition rect_for_block :: "geom \<Rightarrow> int \<Rightarrow> int \<Rightarrow> int \<Rightarrow> box" where
  "rect_for_block g r0 c0 w =
     (let x0 = offset g + (gB g + c0) * gS g;
          y0 = offset g + (gB g + r0) * gS g
      in (x0, y0, x0 + w * gS g, y0 + w * gS g))"

definition in_finder_footprint :: "int \<Rightarrow> int \<Rightarrow> int \<Rightarrow> bool" where
  "in_finder_footprint N r c =
     (if - 1 \<le> r \<and> r \<le> 7 \<and> - 1 \<le> c \<and> c \<le> 7 then True
      else if - 1 \<le> r \<and> r \<le> 7 \<and> N - 8 \<le> c \<and> c \<le> N then True
      else if N - 8 \<le> r \<and> r \<le> N \<and> - 1 \<le> c \<and> c \<le> 7 then True
      else False)"

section \<open>The drawing calls\<close>

text \<open>
  A raster has a size and a colour for each pixel. Each call on the \<open>ImageDraw\<close> object
  or the image is recorded as an operation, in the order of the calls.
\<close>

record image =
  width :: int
  height :: int
  pix :: "int \<times> int \<Rightarrow> rgba"

datatype draw_op =
    Rectangle box rgba
  | RoundedRectangle box int rgba
  | Ellipse box rgba
  | AlphaComposite image "int \<times> int"

text \<open>
  The background: a rounded rectangle over the symbol square. Its radius, like the radii
  \<open>r_band\<close> and \<open>r_eye\<close> of \<open>draw_finder\<close> below, is \<open>int(...)\<close> of a float product,
  evaluated from left to right.
\<close>

definition bg_radius :: "request \<Rightarrow> geom \<Rightarrow> int" where
  "bg_radius req g =
     (if rounded_canvas req
      then py_int (fmul (fmul (finder_round_ratio req) (of_int (gS g))) 2)
      else 0)"

definition background_op :: "request \<Rightarrow> geom \<Rightarrow> rgba \<Rightarrow> draw_op" where
  "background_op req g LIGHT =
     RoundedRectangle
       (offset g, offset g, offset g + render_px g, offset g + render_px g)
       (bg_radius req g) LIGHT"

text \<open>
  The finders: \<open>draw_finder\<close> for rounded finders, twelve plain rectangles otherwise.
\<close>

definition r_band :: "request \<Rightarrow> geom \<Rightarrow> int" where
  "r_band req g = py_int (fmul (finder_round_ratio req) (of_int (gS g)))"

definition r_eye :: "request \<Rightarrow> geom \<Rightarrow> int" where
  "r_eye req g = py_int (fmul (fmul (finder_round_ratio req) (3 / 2)) (of_int (gS g)))"

definition draw_finder :: "request \<Rightarrow> geom \<Rightarrow> rgba \<Rightarrow> rgba \<Rightarrow> int \<Rightarrow> int \<Rightarrow> draw_op list" where
  "draw_finder req g DARK LIGHT top_r left_c =
     [Rectangle (rect_for_block g (top_r - 1) (left_c - 1) 9) LIGHT,
      RoundedRectangle (rect_for_block g top_r left_c 7) (r_band req g) DARK,
      RoundedRectangle (rect_for_block g (top_r + 1) (left_c + 1) 5) (r_band req g) LIGHT,
      RoundedRectangle (rect_for_block g (top_r + 2) (left_c + 2) 3) (r_eye req g) DARK]"

definition finder_ops :: "request \<Rightarrow> geom \<Rightarrow> rgba \<Rightarrow> rgba \<Rightarrow> draw_op list" where
  "finder_ops req g DARK LIGHT =
     (let N = gN g in
      if rounded_finders req then
        draw_finder req g DARK LIGHT 0 0 @
        draw_finder req g DARK LIGHT 0 (N - 7) @
        draw_finder req g DARK LIGHT (N - 7) 0
      else
        [Rectangle (rect_for_block g (- 1) (- 1) 9) LIGHT,
         Rectangle (rect_for_block g 0 0 7) DARK,
         Rectangle (rect_for_block g 1 1 5) LIGHT,
         Rectangle (rect_for_block g 2 2 3) DARK,
         Rectangle (rect_for_block g (- 1) (N - 8) 9) LIGHT,
         Rectangle (rect_for_block g 0 (N - 7) 7) DARK,
         Rectangle (rect_for_block g 1 (N - 6) 5) LIGHT,
         Rectangle (rect_for_block g 2 (N - 5) 3) DARK,
         Rectangle (rect_for_block g (N - 8) (- 1) 9) LIGHT,
         Rectangle (rect_for_block g (N - 7) 0 7) DARK,
         Rectangle (rect_for_block g (N - 6) 1 5) LIGHT,
         Rectangle (rect_for_block g (N - 5) 2 3) DARK])"

text \<open>
  The two nested loops over \<open>range(N)\<close>: the cells that are not skipped by a
  \<open>continue\<close>, in the order of the iteration. (They are read only when every row has
  \<open>N\<close> columns, see \<open>data_ops\<close>.)
\<close>

definition data_cells :: "matrix \<Rightarrow> (nat \<times> nat) list" where
  "data_cells m =
     concat (map (\<lambda>r. concat (map (\<lambda>c.
         if \<not> m ! r ! c then []
         else if in_finder_footprint (int (length m)) (int r) (int c) then []
         else [(r, c)]) [0..<length m])) [0..<length m])"

text \<open>
  A data module: a circle around the centre of its cell, or the rectangle of its cell.
\<close>

definition r_px :: "request \<Rightarrow> geom \<Rightarrow> int" where
  "r_px req g =
     (let dot_margin = clamp (dot_margin req) 0 (lit (49 / 100))
      in py_int (fmul (of_int (gS g)) (fsub (1 / 2) dot_margin)))"

definition data_op :: "request \<Rightarrow> geom \<Rightarrow> rgba \<Rightarrow> nat \<times> nat \<Rightarrow> draw_op" where
  "data_op req g DARK rc =
     (let r = int (fst rc); c = int (snd rc) in
      if dot_style req then
        let rad = r_px req g;
            cx = offset g + (gB g + c) * gS g + gS g div 2;
            cy = offset g + (gB g + r) * gS g + gS g div 2
        in Ellipse (cx - rad, cy - rad, cx + rad, cy + rad) DARK
      else Rectangle (rect_for_block g r c 1) DARK)"

text \<open>
  \<open>m[r][c]\<close> raises \<open>IndexError\<close> when row \<open>r\<close> has no column \<open>c\<close>; the loops read
  every \<open>c\<close> below \<open>N\<close> in every row, so they raise exactly when some row is shorter than
  \<open>N = len(m)\<close>.
\<close>

definition data_ops :: "request \<Rightarrow> geom \<Rightarrow> rgba \<Rightarrow> matrix \<Rightarrow> error + draw_op list" where
  "data_ops req g DARK m =
     (if \<exists>row \<in> set m. length row < length m then Inl IndexError
      else Inr (map (data_op req g DARK) (data_cells m)))"

text \<open>
  The hole, drawn after finders and data modules when \<open>hole\<close> is set and the fraction is
  above zero: a rectangle or a circle around the symbol's pixel centre.
\<close>

definition hole_px :: "request \<Rightarrow> geom \<Rightarrow> int" where
  "hole_px req g = py_int (fmul (of_int (render_px g)) (clamp (hole_percentage req) 0 (lit (1 / 5))))"

definition hole_ops :: "request \<Rightarrow> geom \<Rightarrow> rgba \<Rightarrow> draw_op list" where
  "hole_ops req g LIGHT =
     (if hole req \<and> 0 < hole_percentage req then
        let cx = offset g + render_px g div 2;
            cy = offset g + render_px g div 2
        in if hole_shape req = RectangleShape then
             let hw = hole_px req g div 2; hh = hole_px req g div 2
             in [Rectangle (cx - hw, cy - hh, cx + hw, cy + hh) LIGHT]
           else
             let r = hole_px req g div 2
             in [Ellipse (cx - r, cy - r, cx + r, cy + r) LIGHT]
      else [])"

section \<open>The imaging library\<close>

text \<open>
  The rasterisation done by the imaging library (Pillow) is not part of the program. The
  model takes it as a parameter:
  \<^item> \<open>rounded_mask b r p\<close>: \<open>rounded_rectangle\<close> on box \<open>b\<close> with radius \<open>r\<close> paints
    pixel \<open>p\<close> of the box;
  \<^item> \<open>ellipse_mask b p\<close>: \<open>ellipse\<close> on bounding box \<open>b\<close> paints pixel \<open>p\<close> of the box;
  \<^item> \<open>ink c\<close>: the pixel value stored for the fill colour \<open>c\<close>;
  \<^item> \<open>load_logo s\<close>: \<open>Image.open(io.BytesIO(base64.b64decode(s))).convert("RGBA")\<close>,
    \<open>None\<close> when one of the calls raises;
  \<^item> \<open>thumbnail im size\<close>: the image after \<open>im.thumbnail(size, Image.NEAREST)\<close>,
    \<open>None\<close> when it raises;
  \<^item> \<open>blend s d\<close>: the pixel that \<open>alpha_composite\<close> stores for source \<open>s\<close> over
    destination \<open>d\<close>.

  A box \<open>[x0, y0, x1, y1]\<close> includes both end points, as the library documents for
  \<open>rectangle\<close>, and no shape paints outside its box.
\<close>

record pil =
  rounded_mask :: "box \<Rightarrow> int \<Rightarrow> int \<times> int \<Rightarrow> bool"
  ellipse_mask :: "box \<Rightarrow> int \<times> int \<Rightarrow> bool"
  ink :: "rgba \<Rightarrow> rgba"
  load_logo :: "string \<Rightarrow> image option"
  thumbnail :: "image \<Rightarrow> int \<times> int \<Rightarrow> image option"
  blend :: "rgba \<Rightarrow> rgba \<Rightarrow> rgba"

definition in_box :: "box \<Rightarrow> int \<times> int \<Rightarrow> bool" where
  "in_box b p = (case b of (x0, y0, x1, y1) \<Rightarrow>
     x0 \<le> fst p \<and> fst p \<le> x1 \<and> y0 \<le> snd p \<and> snd p \<le> y1)"

fun covers :: "pil \<Rightarrow> draw_op \<Rightarrow> int \<times> int \<Rightarrow> bool" where
  "covers P (Rectangle b c) p = in_box b p"
| "covers P (RoundedRectangle b r c) p = (in_box b p \<and> rounded_mask P b r p)"
| "covers P (Ellipse b c) p = (in_box b p \<and> ellipse_mask P b p)"
| "covers P (AlphaComposite im d) p =
     (fst d \<le> fst p \<and> fst p < fst d + width im \<and> snd d \<le> snd p \<and> snd p < snd d + height im)"

fun colour :: "pil \<Rightarrow> draw_op \<Rightarrow> int \<times> int \<Rightarrow> rgba \<Rightarrow> rgba" where
  "colour P (Rectangle b c) p old = ink P c"
| "colour P (RoundedRectangle b r c) p old = ink P c"
| "colour P (Ellipse b c) p old = ink P c"
| "colour P (AlphaComposite im d) p old = blend P (pix im (fst p - fst d, snd p - snd d)) old"

definition in_canvas :: "image \<Rightarrow> int \<times> int \<Rightarrow> bool" where
  "in_canvas img p = (0 \<le> fst p \<and> fst p < width img \<and> 0 \<le> snd p \<and> snd p < height img)"

definition paint :: "pil \<Rightarrow> image \<Rightarrow> draw_op \<Rightarrow> image" where
  "paint P img op =
     img\<lparr>pix := (\<lambda>p. if in_canvas img p \<and> covers P op p
                      then colour P op p (pix img p) else pix img p)\<rparr>"

definition new_image :: "int \<Rightarrow> image" where
  "new_image SIZE = \<lparr>width = SIZE, height = SIZE, pix = (\<lambda>p. (0, 0, 0, 0))\<rparr>"

section \<open>\<open>draw_qr\<close>\<close>

text \<open>\<open>s.split(",")[-1]\<close>: what follows the last comma.\<close>

definition last_field :: "string \<Rightarrow> string" where
  "last_field s = rev (takeWhile (\<lambda>c. c \<noteq> CHR '','') (rev s))"

text \<open>
  The logo step. An empty string is false in a condition, as \<open>None\<close> is. Whatever is
  raised inside the \<open>try\<close> is swallowed and leaves the image as it was.
\<close>

definition logo_ops :: "pil \<Rightarrow> request \<Rightarrow> geom \<Rightarrow> draw_op list" where
  "logo_ops P req g =
     (case logo_base64 req of
        None \<Rightarrow> []
      | Some s \<Rightarrow>
          if use_logo req \<and> s \<noteq> [] then
            (case load_logo P (last_field s) of
               None \<Rightarrow> []
             | Some logo \<Rightarrow>
                 let max_side = py_int (fmul (of_int (pixel_size req)) (lit (1 / 5)))
                 in (case thumbnail P logo (max_side, max_side) of
                       None \<Rightarrow> []
                     | Some small \<Rightarrow>
                         let lw = width small; lh = height small;
                             cx = offset g + render_px g div 2;
                             cy = offset g + render_px g div 2
                         in [AlphaComposite small (cx - lw div 2, cy - lh div 2)]))
          else [])"

text \<open>All drawing calls of one run, in their order, or the exception that ends the run.\<close>

definition draw_calls :: "pil \<Rightarrow> request \<Rightarrow> matrix \<Rightarrow> error + draw_op list" where
  "draw_calls P req m =
     bind_err (resolve req m) (\<lambda>g.
     bind_err (parse_hex_rgba (foreground req) (0, 0, 0, 255)) (\<lambda>DARK.
     bind_err (parse_hex_rgba (background req) (255, 255, 255, 255)) (\<lambda>LIGHT.
     bind_err (data_ops req g DARK m) (\<lambda>dots.
     Inr (background_op req g LIGHT # finder_ops req g DARK LIGHT @ dots
            @ hole_ops req g LIGHT @ logo_ops P req g)))))"

definition draw_qr :: "pil \<Rightarrow> request \<Rightarrow> matrix \<Rightarrow> error + image" where
  "draw_qr P req m =
     bind_err (draw_calls P req m) (\<lambda>ops.
     Inr (foldl (paint P) (new_image (pixel_size req)) ops))"

text \<open>The colour of a pixel of the canvas in the result of a run that returns.\<close>

definition pixel_at :: "error + image \<Rightarrow> int \<times> int \<Rightarrow> rgba option" where
  "pixel_at res p = (case res of
       Inl e \<Rightarrow> None
     | Inr img \<Rightarrow> if in_canvas img p then Some (pix img p) else None)"

section \<open>Notions used to state the properties\<close>

text \<open>
  A 21 by 21 matrix with the function patterns of a version-1 symbol (three finders, the
  two timing lines, the dark module) and a few dark data modules, among them the centre
  module \<open>(10, 10)\<close>.
\<close>

definition sample_matrix :: matrix where
  "sample_matrix =
    [[True, True, True, True, True, True, True, False, False, False, True, False, False, False, True, True, True, True, True, True, True],
     [True, False, False, False, False, False, True, False, False, False, False, False, False, False, True, False, False, False, False, False, True],
     [True, False, True, True, True, False, True, False, False, False, False, False, False, False, True, False, True, True, True, False, True],
     [True, False, True, True, True, False, True, False, False, False, False, False, False, False, True, False, True, True, True, False, True],
     [True, False, True, True, True, False, True, False, False, False, False, False, False, False, True, False, True, True, True, False, True],
     [True, False, False, False, False, False, True, False, False, False, False, False, False, False, True, False, False, False, False, False, True],
     [True, True, True, True, True, True, True, False, True, False, True, False, True, False, True, True, True, True, True, True, True],
     [False, False, False, False, False, False, False, False, False, False, False, False, False, False, False, False, False, False, False, False, False],
     [False, False, False, False, False, False, True, False, True, False, False, False, False, False, False, False, False, False, False, False, False],
     [False, False, False, False, False, False, False, False, False, True, False, False, True, False, False, False, False, False, False, False, False],
     [True, False, False, False, False, False, True, False, False, False, True, False, False, False, False, False, False, False, False, False, False],
     [False, False, False, False, False, False, False, False, False, False, False, False, False, True, False, False, False, False, False, False, False],
     [False, False, False, False, False, False, True, False, False, True, False, False, False, False, False, False, False, False, False, False, False],
     [False, False, False, False, False, False, False, False, True, False, False, False, False, False, False, False, False, False, False, False, False],
     [True, True, True, True, True, True, True, False, False, False, False, False, False, False, False, True, False, False, False, False, False],
     [True, False, False, False, False, False, True, False, False, False, False, False, False, False, True, False, False, False, False, False, False],
     [True, False, True, True, True, False, True, False, False, False, False, False, False, False, False, False, False, False, False, False, False],
     [True, False, True, True, True, False, True, False, False, False, False, False, False, False, False, False, False, False, True, False, False],
     [True, False, True, True, True, False, True, False, False, False, False, False, False, False, False, False, False, False, False, False, False],
     [True, False, False, False, False, False, True, False, False, False, False, False, False, False, False, False, False, False, False, False, False],
     [True, True, True, True, True, True, True, False, False, False, False, False, False, False, False, False, False, False, False, False, True]]"

text \<open>The box and the fill colour of a drawing call.\<close>

fun op_box :: "draw_op \<Rightarrow> box" where
  "op_box (Rectangle b c) = b"
| "op_box (RoundedRectangle b r c) = b"
| "op_box (Ellipse b c) = b"
| "op_box (AlphaComposite im d) = (fst d, snd d, fst d + width im - 1, snd d + height im - 1)"

fun op_fill :: "draw_op \<Rightarrow> rgba option" where
  "op_fill (Rectangle b c) = Some c"
| "op_fill (RoundedRectangle b r c) = Some c"
| "op_fill (Ellipse b c) = Some c"
| "op_fill (AlphaComposite im d) = None"



text \<open>The module blocks \<open>(row, col, span)\<close> of the twelve finder layers, in drawing order.\<close>

definition finder_blocks :: "int \<Rightarrow> (int \<times> int \<times> int) list" where
  "finder_blocks N =
     [(- 1, - 1, 9), (0, 0, 7), (1, 1, 5), (2, 2, 3),
      (- 1, N - 8, 9), (0, N - 7, 7), (1, N - 6, 5), (2, N - 5, 3),
      (N - 8, - 1, 9), (N - 7, 0, 7), (N - 6, 1, 5), (N - 5, 2, 3)]"

text \<open>The bounding square of the symbol, and the top left corner of its quiet zone.\<close>

definition symbol_square :: "geom \<Rightarrow> box" where
  "symbol_square g = (offset g, offset g, offset g + render_px g, offset g + render_px g)"

definition quiet_corner :: "geom \<Rightarrow> int \<times> int \<Rightarrow> bool" where
  "quiet_corner g p =
     (offset g \<le> fst p \<and> fst p < offset g + gB g * gS g \<and>
      offset g \<le> snd p \<and> snd p < offset g + gB g * gS g)"

text \<open>Every row has at least as many columns as the matrix has rows.\<close>

definition rows_ok :: "matrix \<Rightarrow> bool" where
  "rows_ok m = (\<forall>row \<in> set m. length m \<le> length row)"

subsection \<open>What is assumed of the imaging library\<close>

text \<open>
  \<^item> A rounded rectangle of radius 0 is the rectangle. In a box more than \<open>2 r + 1\<close> wide
    and high, a pixel of the top left corner square that is farther than \<open>r + 1\<close> from
    the centre \<open>(x0 + r, y0 + r)\<close> of the corner arc is not painted.
  \<^item> A circle of radius \<open>r\<close> around \<open>(cx, cy)\<close> paints every pixel within \<open>r - 1\<close> of the
    centre.
  \<^item> A thumbnail for the size \<open>(k, k)\<close> is at most \<open>k\<close> pixels wide and high.
  \<^item> A fill colour whose four channels are bytes is stored as it is.
\<close>

definition rounded_rect_ok :: "pil \<Rightarrow> bool" where
  "rounded_rect_ok P =
     ((\<forall>b p. in_box b p \<longrightarrow> rounded_mask P b 0 p) \<and>
      (\<forall>x0 y0 x1 y1 r x y.
         0 < r \<and> 2 * r + 1 < x1 - x0 \<and> 2 * r + 1 < y1 - y0 \<and>
         x0 \<le> x \<and> x \<le> x0 + r \<and> y0 \<le> y \<and> y \<le> y0 + r \<and>
         (r + 1) * (r + 1) < (x - (x0 + r)) * (x - (x0 + r)) + (y - (y0 + r)) * (y - (y0 + r))
         \<longrightarrow> \<not> rounded_mask P (x0, y0, x1, y1) r (x, y)))"


definition is_colour :: "rgba \<Rightarrow> bool" where
  "is_colour c = (case c of (r, g, b, a) \<Rightarrow>
     0 \<le> r \<and> r \<le> 255 \<and> 0 \<le> g \<and> g \<le> 255 \<and> 0 \<le> b \<and> b \<le> 255 \<and> 0 \<le> a \<and> a \<le> 255)"

definition ink_ok :: "pil \<Rightarrow> bool" where
  "ink_ok P = (\<forall>c. is_colour c \<longrightarrow> ink P c = c)"

definition thumbnail_ok :: "pil \<Rightarrow> bool" where
  "thumbnail_ok P =
     (\<forall>im k small. thumbnail P im (k, k) = Some small
        \<longrightarrow> width small \<le> k \<and> height small \<le> k)"

subsection \<open>An instance of the library\<close>

text \<open>
  One library that meets these assumptions, to apply the theorems to. It is not the
  imaging library itself: shapes are filled by exact geometry, colour channels are clipped
  to a byte, the decoder knows a single payload (the PNG file of an opaque blue square
  of 64 pixels, in base64), the thumbnail has the size that Pillow computes (in exact
  arithmetic) and samples the nearest pixel, and the blend keeps an opaque source. It
  agrees with Pillow on rectangles, on rounded rectangles away from the corner arcs, on an
  image that already fits the thumbnail size and on an opaque source pixel; on an arc, on
  an empty ellipse and in the pixels of a shrunken thumbnail the two may differ.
\<close>

definition exact_rounded_mask :: "box \<Rightarrow> int \<Rightarrow> int \<times> int \<Rightarrow> bool" where
  "exact_rounded_mask b r p = (case b of (x0, y0, x1, y1) \<Rightarrow>
     let dx = max 0 (max (x0 + r - fst p) (fst p - (x1 - r)));
         dy = max 0 (max (y0 + r - snd p) (snd p - (y1 - r)))
     in dx = 0 \<or> dy = 0 \<or> dx * dx + dy * dy \<le> r * r)"

definition exact_ellipse_mask :: "box \<Rightarrow> int \<times> int \<Rightarrow> bool" where
  "exact_ellipse_mask b p = (case b of (x0, y0, x1, y1) \<Rightarrow>
     let w = x1 - x0; h = y1 - y0;
         u = 2 * fst p - x0 - x1; v = 2 * snd p - y0 - y1
     in u * u * (h * h) + v * v * (w * w) \<le> w * w * (h * h))"

definition clip8 :: "int \<Rightarrow> int" where
  "clip8 v = max 0 (min 255 v)"

definition sample_logo :: image where
  "sample_logo = \<lparr>width = 64, height = 64, pix = (\<lambda>p. (0, 0, 255, 255))\<rparr>"

definition sample_payload :: string where
  "sample_payload =
     ''iVBORw0KGgoAAAANSUhEUgAAAEAAAABACAYAAACqaXHeAAAAYklEQVR42u3QQREAAAwCIP'' @
     ''uXdjm88aAASdrfBAgQIECAAAECBAgQIECAAAECBAgQIECAAAECBAgQIECAAAECBAgQIECA'' @
     ''AAECBAgQIECAAAECBAgQIECAAAECBAgQIECAgHkHYajh0iUppEUAAAAASUVORK5CYII=''"

text \<open>
  The size rule of \<open>Image.thumbnail\<close>: an image that fits is left alone; otherwise one
  side is the requested one and the other is the floor or the ceiling of the scaled side,
  whichever keeps the aspect ratio better (the floor on a tie), and at least one.
\<close>

definition round_aspect :: "rat \<Rightarrow> (int \<Rightarrow> rat) \<Rightarrow> int" where
  "round_aspect number key =
     max (if key \<lceil>number\<rceil> < key \<lfloor>number\<rfloor> then \<lceil>number\<rceil> else \<lfloor>number\<rfloor>) 1"

definition thumbnail_size :: "int \<times> int \<Rightarrow> int \<times> int \<Rightarrow> int \<times> int" where
  "thumbnail_size dims sz =
     (let w = fst dims; h = snd dims; x = fst sz; y = snd sz;
          aspect = rat_of_int w / rat_of_int h
      in if rat_of_int x / rat_of_int y \<ge> aspect
         then (round_aspect (rat_of_int y * aspect) (\<lambda>n. \<bar>aspect - rat_of_int n / rat_of_int y\<bar>), y)
         else (x, round_aspect (rat_of_int x / aspect)
                    (\<lambda>n. if n = 0 then 0 else \<bar>aspect - rat_of_int x / rat_of_int n\<bar>)))"

definition nearest_thumbnail :: "image \<Rightarrow> int \<times> int \<Rightarrow> image option" where
  "nearest_thumbnail im sz =
     (if width im \<le> fst sz \<and> height im \<le> snd sz then Some im
      else if width im < 1 \<or> height im < 1 \<or> fst sz < 1 \<or> snd sz < 1 then None
      else let d = thumbnail_size (width im, height im) sz
           in Some \<lparr>width = fst d, height = snd d,
                     pix = (\<lambda>p. pix im (fst p * width im div fst d, snd p * height im div snd d))\<rparr>)"

definition sample_pil :: pil where
  "sample_pil =
     \<lparr>rounded_mask = exact_rounded_mask,
      ellipse_mask = exact_ellipse_mask,
      ink = (\<lambda>c. case c of (r, g, b, a) \<Rightarrow> (clip8 r, clip8 g, clip8 b, clip8 a)),
      load_logo = (\<lambda>s. if s = sample_payload then Some sample_logo else None),
      thumbnail = nearest_thumbnail,
      blend = (\<lambda>s d. case s of (r, g, b, a) \<Rightarrow> if a = 255 then s else d)\<rparr>"


section \<open>Properties of the floating-point model\<close>

text \<open>
  Rounding to binary64 moves a value by at most half a unit in the last place, and keeps
  the sign.
\<close>

lemma pow2_pos: "0 < pow2 e"
  by (simp add: pow2_def)

lemma rne_near: "\<bar>of_int (rne y) - y\<bar> \<le> 1 / 2"
proof -
  have "of_int \<lfloor>y\<rfloor> \<le> y" "y < of_int \<lfloor>y\<rfloor> + 1" by linarith+
  then show ?thesis
    by (auto simp: rne_def Let_def abs_le_iff)
qed

lemma rne_nonneg: "0 \<le> y \<Longrightarrow> 0 \<le> rne y"
  by (auto simp: rne_def Let_def)

lemma flog2_le:
  assumes "0 < x"
  shows "pow2 (flog2 x) \<le> x"
proof (cases "1 \<le> x")
  case True
  then have pos: "0 < \<lfloor>x\<rfloor>" by simp
  then have b: "1 \<le> bitlen \<lfloor>x\<rfloor>"
    using bitlen_eq_zero_iff [of "\<lfloor>x\<rfloor>"] bitlen_nonneg [of "\<lfloor>x\<rfloor>"] by linarith
  have "(2::int) ^ nat (bitlen \<lfloor>x\<rfloor> - 1) \<le> \<lfloor>x\<rfloor>"
    using bitlen_bounds [OF pos] by simp
  then have "(of_int ((2::int) ^ nat (bitlen \<lfloor>x\<rfloor> - 1)) :: rat) \<le> of_int \<lfloor>x\<rfloor>"
    by (simp only: of_int_le_iff)
  also have "\<dots> \<le> x" by simp
  finally show ?thesis using True b by (simp add: flog2_def pow2_def)
next
  case False
  with assms have x: "0 < x" "x < 1" by simp_all
  define n where "n = \<lceil>1 / x\<rceil>"
  have "1 < 1 / x" using x by simp
  then have n2: "2 \<le> n" unfolding n_def by linarith
  have nx: "1 / x \<le> of_int n" unfolding n_def by linarith
  define k where "k = bitlen (n - 1)"
  have k0: "0 \<le> k" unfolding k_def by (rule bitlen_nonneg)
  have "n - 1 < 2 ^ nat k" unfolding k_def using bitlen_bounds [of "n - 1"] n2 by simp
  then have "n \<le> 2 ^ nat k" by simp
  then have "(of_int n :: rat) \<le> of_int (2 ^ nat k)" by (simp only: of_int_le_iff)
  also have "(of_int (2 ^ nat k) :: rat) = 2 ^ nat k" by simp
  finally have "1 / x \<le> 2 ^ nat k" using nx by linarith
  then have "1 / 2 ^ nat k \<le> x" using x
    by (simp add: field_simps)
  moreover have "pow2 (flog2 x) = 1 / 2 ^ nat k"
    using False k0 by (auto simp: flog2_def pow2_def k_def n_def)
  ultimately show ?thesis by simp
qed

lemma pow2_diff: "pow2 (e - 52) = pow2 e / 2 ^ 52"
proof -
  have "pow2 (e - 52) * 2 ^ 52 = pow2 e"
  proof (cases "0 \<le> e - 52")
    case True
    then have "nat e = nat (e - 52) + 52" by simp
    then show ?thesis using True by (simp add: pow2_def power_add)
  next
    case False
    show ?thesis
    proof (cases "0 \<le> e")
      case True
      then have "nat (- (e - 52)) + nat e = 52" using False by simp
      then have "(2::rat) ^ nat (- (e - 52)) * 2 ^ nat e = 2 ^ 52"
        by (metis power_add)
      then have "2 ^ nat e / (2::rat) ^ nat (- (e - 52)) * 2 ^ nat (- (e - 52)) * 2 ^ nat e = 2 ^ nat e * 2 ^ 52 / 2 ^ nat (- (e - 52))"
        by (simp add: field_simps)
      then have "1 / (2::rat) ^ nat (- (e - 52)) * 2 ^ 52 = 2 ^ nat e"
        using \<open>(2::rat) ^ nat (- (e - 52)) * 2 ^ nat e = 2 ^ 52\<close>
        by (metis mult.commute nonzero_mult_div_cancel_left power_not_zero times_divide_eq_left zero_neq_numeral mult_1)
      then show ?thesis using True False by (simp only: pow2_def if_True if_False)
    next
      case F2: False
      then have "nat (- (e - 52)) = nat (- e) + 52" by simp
      then show ?thesis using F2 False by (simp add: pow2_def power_add)
    qed
  qed
  then show ?thesis by (simp add: field_simps)
qed

lemma fl_round_error: "\<bar>fl_round x - x\<bar> \<le> \<bar>x\<bar> / 2 ^ 53 + 1 / 2 ^ 1075"
proof (cases "x = 0")
  case True
  then show ?thesis by (simp add: fl_round_def)
next
  case False
  define e where "e = max (flog2 \<bar>x\<bar> - 52) (- 1074)"
  have fl: "fl_round x = of_int (rne (x / pow2 e)) * pow2 e"
    using False by (simp add: fl_round_def e_def Let_def)
  have "fl_round x - x = (of_int (rne (x / pow2 e)) - x / pow2 e) * pow2 e"
    using pow2_pos [of e] by (simp add: fl left_diff_distrib)
  then have "\<bar>fl_round x - x\<bar> = \<bar>of_int (rne (x / pow2 e)) - x / pow2 e\<bar> * pow2 e"
    using pow2_pos [of e] by (simp add: abs_mult)
  also have "\<dots> \<le> (1 / 2) * pow2 e"
    using rne_near [of "x / pow2 e"] pow2_pos [of e] by (intro mult_right_mono) simp_all
  finally have err: "\<bar>fl_round x - x\<bar> \<le> pow2 e / 2" by simp
  have "pow2 e \<le> \<bar>x\<bar> / 2 ^ 52 + 1 / 2 ^ 1074"
  proof (cases "flog2 \<bar>x\<bar> - 52 \<le> - 1074")
    case True
    then have "e = - 1074" by (simp add: e_def)
    then have "pow2 e = 1 / 2 ^ 1074" by (simp add: pow2_def)
    then show ?thesis by simp
  next
    case F: False
    then have "e = flog2 \<bar>x\<bar> - 52" by (simp add: e_def)
    then have "pow2 e = pow2 (flog2 \<bar>x\<bar>) / 2 ^ 52" by (simp only: pow2_diff)
    also have "\<dots> \<le> \<bar>x\<bar> / 2 ^ 52"
      using flog2_le [of "\<bar>x\<bar>"] False by (simp add: divide_right_mono)
    finally show ?thesis by simp
  qed
  then have "pow2 e / 2 \<le> (\<bar>x\<bar> / 2 ^ 52 + 1 / 2 ^ 1074) / 2" by simp
  also have "\<dots> = \<bar>x\<bar> / 2 ^ 53 + 1 / 2 ^ 1075" by simp
  finally show ?thesis using err by linarith
qed

lemma fl_round_nonneg:
  assumes "0 \<le> x" shows "0 \<le> fl_round x"
proof (cases "x = 0")
  case True
  then show ?thesis by (simp add: fl_round_def)
next
  case False
  define e where "e = max (flog2 \<bar>x\<bar> - 52) (- 1074)"
  have fl: "fl_round x = of_int (rne (x / pow2 e)) * pow2 e"
    using False by (simp add: fl_round_def e_def Let_def)
  have "0 \<le> x / pow2 e" using assms pow2_pos [of e] by simp
  then have "0 \<le> rne (x / pow2 e)" by (rule rne_nonneg)
  then show ?thesis using pow2_pos [of e] by (simp add: fl)
qed

lemma fl_round_upper: 
  assumes "0 \<le> x" shows "fl_round x \<le> x * (9 / 8) + 1 / 8"
proof -
  have "fl_round x \<le> x + (x / 2 ^ 53 + 1 / 2 ^ 1075)"
    using fl_round_error [of x] assms by (simp add: abs_le_iff)
  moreover have "x / 2 ^ 53 \<le> x / 8" using assms by (intro divide_left_mono) simp_all
  moreover have "(1::rat) / 2 ^ 1075 \<le> 1 / 8" by (intro divide_left_mono) simp_all
  ultimately show ?thesis by simp
qed

section \<open>The sample instance meets the assumptions\<close>

lemma sq_le: "0 \<le> a \<Longrightarrow> a \<le> (b::int) \<Longrightarrow> a * a \<le> b * b"
  by (rule mult_mono) simp_all

lemma sample_pil_rounded: "rounded_rect_ok sample_pil"
proof -
  have a: "exact_rounded_mask b 0 p" if "in_box b p" for b p
    using that by (cases b) (auto simp: exact_rounded_mask_def in_box_def Let_def max_def)
  have b: "\<not> exact_rounded_mask (x0, y0, x1, y1) r (x, y)"
    if h: "0 < r" "2 * r + 1 < x1 - x0" "2 * r + 1 < y1 - y0" "x0 \<le> x" "x \<le> x0 + r" "y0 \<le> y" "y \<le> y0 + r"
      "(r + 1) * (r + 1) < (x - (x0 + r)) * (x - (x0 + r)) + (y - (y0 + r)) * (y - (y0 + r))"
    for x0 y0 x1 y1 r x y
  proof -
    define dx where "dx = x0 + r - x"
    define dy where "dy = y0 + r - y"
    have dx: "0 \<le> dx" "dx \<le> r" and dy: "0 \<le> dy" "dy \<le> r" using h by (simp_all add: dx_def dy_def)
    have mx: "max 0 (max (x0 + r - x) (x - (x1 - r))) = dx" using h by (simp add: dx_def max_def)
    have my: "max 0 (max (y0 + r - y) (y - (y1 - r))) = dy" using h by (simp add: dy_def max_def)
    have "(x - (x0 + r)) * (x - (x0 + r)) = dx * dx" "(y - (y0 + r)) * (y - (y0 + r)) = dy * dy"
      by (simp_all add: dx_def dy_def algebra_simps)
    then have big: "(r + 1) * (r + 1) < dx * dx + dy * dy" using h(8) by simp
    have r1: "r * r \<le> (r + 1) * (r + 1)" using h(1) by (simp add: algebra_simps)
    have xx: "dx * dx \<le> r * r" and yy: "dy * dy \<le> r * r" using dx dy by (simp_all add: sq_le)
    have "dx \<noteq> 0" using big yy r1 by auto
    moreover have "dy \<noteq> 0" using big xx r1 by auto
    moreover have "\<not> dx * dx + dy * dy \<le> r * r" using big r1 by linarith
    ultimately show ?thesis
      by (simp add: exact_rounded_mask_def Let_def mx my)
  qed
  show ?thesis
    unfolding rounded_rect_ok_def using a b by (simp add: sample_pil_def)
qed


lemma round_aspect_le:
  assumes "number \<le> rat_of_int k" "1 \<le> k"
  shows "round_aspect number key \<le> k"
proof -
  have c: "\<lceil>number\<rceil> \<le> k" using assms(1) by (simp add: ceiling_le_iff)
  have "\<lfloor>number\<rfloor> \<le> \<lceil>number\<rceil>" by (rule floor_le_ceiling)
  then have f: "\<lfloor>number\<rfloor> \<le> k" using c by linarith
  show ?thesis using c f assms(2) by (simp add: round_aspect_def)
qed

lemma thumbnail_size_le:
  assumes "1 \<le> w" "1 \<le> h" "1 \<le> k"
  shows "fst (thumbnail_size (w, h) (k, k)) \<le> k \<and> snd (thumbnail_size (w, h) (k, k)) \<le> k"
proof (cases "rat_of_int k / rat_of_int k \<ge> rat_of_int w / rat_of_int h")
  case True
  have kk: "rat_of_int k / rat_of_int k = 1" using assms(3) by simp
  from True kk have a: "rat_of_int w / rat_of_int h \<le> 1" by simp
  have "rat_of_int k * (rat_of_int w / rat_of_int h) \<le> rat_of_int k * 1"
    using a assms(3) by (intro mult_left_mono) simp_all
  then have "round_aspect (rat_of_int k * (rat_of_int w / rat_of_int h))
      (\<lambda>n. \<bar>rat_of_int w / rat_of_int h - rat_of_int n / rat_of_int k\<bar>) \<le> k"
    using assms(3) by (intro round_aspect_le) simp_all
  then show ?thesis using True by (simp add: thumbnail_size_def Let_def)
next
  case False
  have kk: "rat_of_int k / rat_of_int k = 1" using assms(3) by simp
  from False kk have a: "1 < rat_of_int w / rat_of_int h" by simp
  have "rat_of_int k / (rat_of_int w / rat_of_int h) \<le> rat_of_int k / 1"
    using a assms(3) by (intro divide_left_mono) simp_all
  then have "round_aspect (rat_of_int k / (rat_of_int w / rat_of_int h))
      (\<lambda>n. if n = 0 then 0 else \<bar>rat_of_int w / rat_of_int h - rat_of_int k / rat_of_int n\<bar>) \<le> k"
    using assms(3) by (intro round_aspect_le) simp_all
  then show ?thesis using False by (simp add: thumbnail_size_def Let_def)
qed

lemma sample_pil_thumb: "thumbnail_ok sample_pil"
proof -
  have "width small \<le> k \<and> height small \<le> k"
    if h: "nearest_thumbnail im (k, k) = Some small" for im k small
  proof (cases "width im \<le> k \<and> height im \<le> k")
    case True
    then show ?thesis using h by (simp add: nearest_thumbnail_def)
  next
    case False
    from False h have pos: "1 \<le> width im" "1 \<le> height im" "1 \<le> k"
      by (auto simp: nearest_thumbnail_def split: if_splits)
    from False h pos have "width small = fst (thumbnail_size (width im, height im) (k, k))"
      "height small = snd (thumbnail_size (width im, height im) (k, k))"
      by (auto simp: nearest_thumbnail_def Let_def split: if_splits)
    then show ?thesis using thumbnail_size_le [OF pos] by simp
  qed
  then show ?thesis unfolding thumbnail_ok_def by (simp add: sample_pil_def)
qed

lemma clip8_byte: "0 \<le> v \<Longrightarrow> v \<le> 255 \<Longrightarrow> clip8 v = v"
  by (simp add: clip8_def)

lemma sample_pil_ink: "ink_ok sample_pil"
  unfolding ink_ok_def is_colour_def by (auto simp: sample_pil_def clip8_byte)

section \<open>The run of \<open>draw_qr\<close>\<close>

text \<open>What the geometry is when it is resolved, and the calls of a run that returns.\<close>

lemma resolve_Inr:
  assumes "resolve req m = Inr g"
  shows "gN g = int (length m)" "gB g = quiet_zone_modules req"
    "gS g = pixel_size req div (int (length m) + 2 * quiet_zone_modules req)"
    "1 \<le> gS g"
    "render_px g = (int (length m) + 2 * quiet_zone_modules req) * gS g"
    "offset g = (pixel_size req - render_px g) div 2"
  using assms by (auto simp: resolve_def Let_def split: if_splits)


lemma resolve_too_small:
  "resolve req m = Inl OutputTooSmall \<longleftrightarrow>
     int (length m) + 2 * quiet_zone_modules req \<noteq> 0 \<and>
     pixel_size req div (int (length m) + 2 * quiet_zone_modules req) < 1"
  by (auto simp: resolve_def Let_def)

lemma data_cells_iff:
  "(r, c) \<in> set (data_cells m) \<longleftrightarrow>
     r < length m \<and> c < length m \<and> m ! r ! c \<and> \<not> in_finder_footprint (int (length m)) (int r) (int c)"
  by (auto simp: data_cells_def split: if_splits)

lemma data_ops_ok:
  "rows_ok m \<Longrightarrow> data_ops req g DARK m = Inr (map (data_op req g DARK) (data_cells m))"
  by (auto simp: data_ops_def rows_ok_def)

lemma draw_calls_ok:
  assumes "resolve req m = Inr g"
    and "parse_hex_rgba (foreground req) (0, 0, 0, 255) = Inr DARK"
    and "parse_hex_rgba (background req) (255, 255, 255, 255) = Inr LIGHT"
    and "rows_ok m"
  shows "draw_calls P req m =
     Inr (background_op req g LIGHT # finder_ops req g DARK LIGHT
          @ map (data_op req g DARK) (data_cells m)
          @ hole_ops req g LIGHT @ logo_ops P req g)"
  using assms by (simp add: draw_calls_def bind_err_def data_ops_ok)

lemma sample_length: "length sample_matrix = 21"
  by (simp add: sample_matrix_def)

lemma sample_rows_ok: "rows_ok sample_matrix"
  by (simp add: rows_ok_def sample_matrix_def)

lemma resolve_sample:
  "quiet_zone_modules req = 4 \<Longrightarrow> pixel_size req = 1080 \<Longrightarrow>
   resolve req sample_matrix = Inr \<lparr>gN = 21, gB = 4, gS = 37, render_px = 1073, offset = 3\<rparr>"
  by (simp add: resolve_def sample_length)

lemma parse_black: "parse_hex_rgba ''#000000'' (0, 0, 0, 255) = Inr (0, 0, 0, 255)"
  by code_simp

lemma parse_white: "parse_hex_rgba ''#ffffff'' (255, 255, 255, 255) = Inr (255, 255, 255, 255)"
  by code_simp

lemma default_radii:
  "r_band default_request \<lparr>gN = 21, gB = 4, gS = 37, render_px = 1073, offset = 3\<rparr> = 16"
  "r_eye default_request \<lparr>gN = 21, gB = 4, gS = 37, render_px = 1073, offset = 3\<rparr> = 24"
  "bg_radius default_request \<lparr>gN = 21, gB = 4, gS = 37, render_px = 1073, offset = 3\<rparr> = 33"
  "r_px default_request \<lparr>gN = 21, gB = 4, gS = 37, render_px = 1073, offset = 3\<rparr> = 11"
  by code_simp+

text \<open>
  Which exception leaves a run: the too-small error comes from the geometry alone, and a
  run with resolved geometry, parsed colours and full rows returns an image of the canvas
  size.
\<close>

lemma py_int16_error: "py_int16 s = Inl e \<Longrightarrow> e = InvalidLiteral"
  by (auto simp: py_int16_def Let_def split: option.splits prod.splits)

lemma bind_err_error:
  assumes "bind_err x f = Inl e"
  shows "x = Inl e \<or> (\<exists>v. x = Inr v \<and> f v = Inl e)"
  using assms by (cases x) (simp_all add: bind_err_def)

lemma parse_hex_rgba_error: "parse_hex_rgba v d = Inl e \<Longrightarrow> e = InvalidLiteral"
  unfolding parse_hex_rgba_def Let_def
  by (auto split: if_splits dest!: bind_err_error dest: py_int16_error)

lemma data_ops_error: "data_ops req g DARK m = Inl e \<Longrightarrow> e = IndexError"
  by (auto simp: data_ops_def split: if_splits)

lemma draw_calls_too_small:
  "draw_calls P req m = Inl OutputTooSmall \<longleftrightarrow> resolve req m = Inl OutputTooSmall"
proof
  assume "draw_calls P req m = Inl OutputTooSmall"
  then show "resolve req m = Inl OutputTooSmall"
    unfolding draw_calls_def
    by (auto dest!: bind_err_error dest: parse_hex_rgba_error data_ops_error)
next
  assume "resolve req m = Inl OutputTooSmall"
  then show "draw_calls P req m = Inl OutputTooSmall"
    by (simp add: draw_calls_def bind_err_def)
qed

lemma draw_qr_too_small:
  "draw_qr P req m = Inl OutputTooSmall \<longleftrightarrow>
     int (length m) + 2 * quiet_zone_modules req \<noteq> 0 \<and>
     pixel_size req div (int (length m) + 2 * quiet_zone_modules req) < 1"
proof -
  have "draw_qr P req m = Inl OutputTooSmall \<longleftrightarrow> draw_calls P req m = Inl OutputTooSmall"
    by (cases "draw_calls P req m") (simp_all add: draw_qr_def bind_err_def)
  then show ?thesis by (simp add: draw_calls_too_small resolve_too_small)
qed

lemma paint_size [simp]: "width (paint P img op) = width img" "height (paint P img op) = height img"
  by (simp_all add: paint_def)

lemma foldl_paint_size [simp]:
  "width (foldl (paint P) img ops) = width img" "height (foldl (paint P) img ops) = height img"
  by (induction ops arbitrary: img) simp_all

lemma draw_qr_returns:
  assumes "resolve req m = Inr g"
    and "parse_hex_rgba (foreground req) (0, 0, 0, 255) = Inr DARK"
    and "parse_hex_rgba (background req) (255, 255, 255, 255) = Inr LIGHT"
    and "rows_ok m"
  shows "\<exists>img. draw_qr P req m = Inr img \<and> width img = pixel_size req \<and> height img = pixel_size req"
  using draw_calls_ok [OF assms, of P]
  by (simp add: draw_qr_def bind_err_def new_image_def)

text \<open>Values of the float constants, and the signs of the radius expressions.\<close>

lemma lit_consts:
  "0 \<le> lit (49 / 100)" "lit (49 / 100) \<le> 49 / 100" "0 \<le> lit (1 / 5)" "lit (1 / 5) \<le> 1 / 4"
  by code_simp+

lemma max_side_1080: "py_int (fmul (of_int 1080) (lit (1 / 5))) = 216"
  by code_simp

lemma valid_default: "valid_request default_request"
  by code_simp

lemma py_int_floor: "0 \<le> x \<Longrightarrow> py_int x = \<lfloor>x\<rfloor>"
  by (simp add: py_int_def)

lemma fmul_nonneg: "0 \<le> a \<Longrightarrow> 0 \<le> b \<Longrightarrow> 0 \<le> fmul a b"
  by (simp add: fmul_def fl_round_nonneg)

lemma clamp_bounds: "lo \<le> hi \<Longrightarrow> lo \<le> clamp v lo hi \<and> clamp v lo hi \<le> hi"
  by (auto simp: clamp_def)

lemma dot_factor_nonneg: "0 \<le> fsub (1 / 2) (clamp v 0 (lit (49 / 100)))"
proof -
  have "clamp v 0 (lit (49 / 100)) \<le> lit (49 / 100)"
    using clamp_bounds [of 0 "lit (49 / 100)" v] lit_consts(1) by simp
  then have "0 \<le> 1 / 2 - clamp v 0 (lit (49 / 100))" using lit_consts(2) by linarith
  then show ?thesis unfolding fsub_def by (rule fl_round_nonneg)
qed

text \<open>The logo field is read by the logo step only.\<close>

lemma logo_ops_None: "logo_ops P (req\<lparr>logo_base64 := None\<rparr>) g = []"
  by (simp add: logo_ops_def)

lemma logo_ops_undecodable:
  "logo_base64 req = Some s \<Longrightarrow> load_logo P (last_field s) = None \<Longrightarrow> logo_ops P req g = []"
  by (simp add: logo_ops_def)

lemma without_logo_radii:
  "r_px (req\<lparr>logo_base64 := x\<rparr>) g = r_px req g"
  "r_band (req\<lparr>logo_base64 := x\<rparr>) g = r_band req g"
  "r_eye (req\<lparr>logo_base64 := x\<rparr>) g = r_eye req g"
  "bg_radius (req\<lparr>logo_base64 := x\<rparr>) g = bg_radius req g"
  "hole_px (req\<lparr>logo_base64 := x\<rparr>) g = hole_px req g"
  by (simp_all add: r_px_def r_band_def r_eye_def bg_radius_def hole_px_def)

lemma without_logo_ops:
  "data_op (req\<lparr>logo_base64 := x\<rparr>) g DARK = data_op req g DARK"
  "draw_finder (req\<lparr>logo_base64 := x\<rparr>) g DARK LIGHT t l = draw_finder req g DARK LIGHT t l"
  by (simp_all add: data_op_def draw_finder_def without_logo_radii fun_eq_iff Let_def)

lemma without_logo_field:
  "resolve (req\<lparr>logo_base64 := x\<rparr>) m = resolve req m"
  "data_ops (req\<lparr>logo_base64 := x\<rparr>) g DARK m = data_ops req g DARK m"
  "background_op (req\<lparr>logo_base64 := x\<rparr>) g LIGHT = background_op req g LIGHT"
  "finder_ops (req\<lparr>logo_base64 := x\<rparr>) g DARK LIGHT = finder_ops req g DARK LIGHT"
  "hole_ops (req\<lparr>logo_base64 := x\<rparr>) g LIGHT = hole_ops req g LIGHT"
  by (simp_all add: resolve_def data_ops_def background_op_def finder_ops_def hole_ops_def
      without_logo_radii without_logo_ops Let_def)

section \<open>Painting\<close>

text \<open>
  A pixel that no call covers keeps its colour; a pixel covered by one of a run of calls
  with the same fill ends with that fill; a call covers pixels of its box only. The finder
  layers lie inside the symbol square.
\<close>

lemma pix_paint:
  "pix (paint P img op) p =
     (if in_canvas img p \<and> covers P op p then colour P op p (pix img p) else pix img p)"
  by (simp add: paint_def)

lemma in_canvas_paint [simp]: "in_canvas (paint P img op) p = in_canvas img p"
  by (simp add: in_canvas_def)

lemma in_canvas_foldl [simp]: "in_canvas (foldl (paint P) img ops) p = in_canvas img p"
  by (simp add: in_canvas_def)

lemma foldl_paint_not_covered:
  "\<forall>op \<in> set ops. \<not> covers P op p \<Longrightarrow> pix (foldl (paint P) img ops) p = pix img p"
  by (induction ops arbitrary: img) (simp_all add: pix_paint)

lemma colour_fill: "op_fill op = Some c \<Longrightarrow> colour P op p old = ink P c"
  by (cases op) simp_all

lemma foldl_paint_same_fill:
  assumes "\<forall>op \<in> set ops. op_fill op = Some c" and "\<exists>op \<in> set ops. covers P op p"
    and "in_canvas img p"
  shows "pix (foldl (paint P) img ops) p = ink P c"
  using assms
proof (induction ops rule: rev_induct)
  case Nil
  then show ?case by simp
next
  case (snoc x xs)
  show ?case
  proof (cases "covers P x p")
    case True
    then show ?thesis using snoc.prems by (simp add: pix_paint colour_fill)
  next
    case False
    then have "\<exists>op \<in> set xs. covers P op p" using snoc.prems(2) by auto
    then have "pix (foldl (paint P) img xs) p = ink P c" using snoc.prems by (intro snoc.IH) simp_all
    then show ?thesis using False by (simp add: pix_paint)
  qed
qed

lemma covers_in_box: "covers P op p \<Longrightarrow> in_box (op_box op) p"
  by (cases op) (auto simp: in_box_def)

lemma rect_in_square:
  assumes "0 \<le> gS g" and "render_px g = (gN g + 2 * gB g) * gS g"
    and "- gB g \<le> r" and "- gB g \<le> c" and "r + w \<le> gN g + gB g" and "c + w \<le> gN g + gB g"
    and "in_box (rect_for_block g r c w) p"
  shows "in_box (symbol_square g) p"
proof -
  have x0: "0 \<le> (gB g + c) * gS g" and y0: "0 \<le> (gB g + r) * gS g"
    using assms by (simp_all add: mult_nonneg_nonneg)
  have "(gB g + c + w) * gS g \<le> (gN g + 2 * gB g) * gS g"
    using assms by (intro mult_right_mono) simp_all
  then have x1: "(gB g + c) * gS g + w * gS g \<le> render_px g"
    by (simp add: assms(2) algebra_simps)
  have "(gB g + r + w) * gS g \<le> (gN g + 2 * gB g) * gS g"
    using assms by (intro mult_right_mono) simp_all
  then have y1: "(gB g + r) * gS g + w * gS g \<le> render_px g"
    by (simp add: assms(2) algebra_simps)
  show ?thesis using assms(7) x0 y0 x1 y1
    by (auto simp: in_box_def rect_for_block_def symbol_square_def Let_def)
qed

lemma finder_ops_boxes:
  "map op_box (finder_ops req g DARK LIGHT) =
     map (\<lambda>b. rect_for_block g (fst b) (fst (snd b)) (snd (snd b))) (finder_blocks (gN g))"
  by (cases "rounded_finders req")
     (simp_all add: finder_ops_def draw_finder_def finder_blocks_def Let_def algebra_simps)

lemma finder_ops_block:
  assumes "op \<in> set (finder_ops req g DARK LIGHT)"
  obtains r c w where "(r, c, w) \<in> set (finder_blocks (gN g))" "op_box op = rect_for_block g r c w"
proof -
  from assms have "op_box op \<in> set (map op_box (finder_ops req g DARK LIGHT))" by simp
  then have "op_box op \<in> set (map (\<lambda>b. rect_for_block g (fst b) (fst (snd b)) (snd (snd b))) (finder_blocks (gN g)))"
    by (simp only: finder_ops_boxes)
  then obtain b where "b \<in> set (finder_blocks (gN g))" "op_box op = rect_for_block g (fst b) (fst (snd b)) (snd (snd b))"
    by auto
  then show ?thesis using that [of "fst b" "fst (snd b)" "snd (snd b)"] by simp
qed

lemma finder_blocks_bounds:
  assumes "(r, c, w) \<in> set (finder_blocks N)" and "7 \<le> N"
  shows "- 1 \<le> r" "- 1 \<le> c" "r + w \<le> N + 1" "c + w \<le> N + 1"
  using assms by (auto simp: finder_blocks_def)

lemma finder_ops_in_square:
  assumes "0 \<le> gS g" and "render_px g = (gN g + 2 * gB g) * gS g" and "1 \<le> gB g" and "7 \<le> gN g"
    and "op \<in> set (finder_ops req g DARK LIGHT)" and "covers P op p"
  shows "in_box (symbol_square g) p"
proof -
  from assms(5) obtain r c w where b: "(r, c, w) \<in> set (finder_blocks (gN g))"
    and box: "op_box op = rect_for_block g r c w" by (rule finder_ops_block)
  note bb = finder_blocks_bounds [OF b assms(4)]
  have "in_box (rect_for_block g r c w) p" using covers_in_box [OF assms(6)] box by simp
  then show ?thesis using bb assms(1-4) by (intro rect_in_square [of g r c w p]) simp_all
qed

section \<open>Bounds on the dot radius and the hole size\<close>

text \<open>
  At module sizes up to the canvas size the float rounding cannot lift the dot radius above
  half a module, and the hole is never wider than the symbol.
\<close>

lemma fl_round_upper_small:
  assumes "0 \<le> x" and "x \<le> 2 ^ 20"
  shows "fl_round x \<le> x + 1 / 2 ^ 32"
proof -
  have "fl_round x \<le> x + (x / 2 ^ 53 + 1 / 2 ^ 1075)"
    using fl_round_error [of x] assms(1) by (simp add: abs_le_iff)
  moreover have "x / 2 ^ 53 \<le> 2 ^ 20 / 2 ^ 53" using assms(2) by (intro divide_right_mono) simp_all
  moreover have "(2::rat) ^ 20 / 2 ^ 53 = 1 / 2 ^ 33" by simp
  moreover have "(1::rat) / 2 ^ 1075 \<le> 1 / 2 ^ 33" by (intro divide_left_mono) simp_all
  moreover have "(1::rat) / 2 ^ 33 + 1 / 2 ^ 33 = 1 / 2 ^ 32" by simp
  ultimately show ?thesis by linarith
qed

lemma r_px_le_half:
  assumes "1 \<le> gS g" and "gS g \<le> 1080"
  shows "r_px req g \<le> gS g div 2"
proof -
  define d where "d = clamp (dot_margin req) 0 (lit (49 / 100))"
  define t where "t = fsub (1 / 2) d"
  define S where "S = (of_int (gS g) :: rat)"
  have S: "1 \<le> S" "S \<le> 1080" using assms by (simp_all add: S_def)
  have d: "0 \<le> d" "d \<le> 49 / 100"
    using clamp_bounds [of 0 "lit (49 / 100)" "dot_margin req"] lit_consts(1,2) by (simp_all add: d_def)
  have t0: "0 \<le> t" unfolding t_def d_def by (rule dot_factor_nonneg)
  have "t \<le> (1 / 2 - d) + 1 / 2 ^ 32"
    unfolding t_def fsub_def using d by (intro fl_round_upper_small) simp_all
  then have t1: "t \<le> 1 / 2 + 1 / 2 ^ 32" using d by linarith
  have x0: "0 \<le> S * t" using S t0 by simp
  have "S * t \<le> S * (1 / 2 + 1 / 2 ^ 32)" using t1 S by (intro mult_left_mono) simp_all
  also have "\<dots> = S / 2 + S / 2 ^ 32" by (simp add: algebra_simps)
  also have "\<dots> \<le> S / 2 + 1080 / 2 ^ 32" using S by (simp add: divide_right_mono)
  finally have x1: "S * t \<le> S / 2 + 1080 / 2 ^ 32" .
  then have "S * t \<le> 2 ^ 20" using S by simp
  then have "fmul S t \<le> S * t + 1 / 2 ^ 32"
    unfolding fmul_def using x0 by (intro fl_round_upper_small)
  then have "fmul S t \<le> S / 2 + 1081 / 2 ^ 32" using x1 by simp
  then have "fmul S t < S / 2 + 1 / 2" by simp
  moreover have "(of_int (gS g) :: rat) / 2 \<le> of_int (gS g div 2) + 1 / 2"
  proof -
    have "gS g = 2 * (gS g div 2) + gS g mod 2" by simp
    moreover have "gS g mod 2 \<le> 1" by simp
    ultimately have "gS g \<le> 2 * (gS g div 2) + 1" by linarith
    then have "(of_int (gS g) :: rat) \<le> of_int (2 * (gS g div 2) + 1)" by (simp only: of_int_le_iff)
    then show ?thesis by simp
  qed
  ultimately have "fmul S t < of_int (gS g div 2 + 1)" by (simp add: S_def)
  then have "\<lfloor>fmul S t\<rfloor> < gS g div 2 + 1" by (simp only: floor_less_iff)
  moreover have "0 \<le> fmul S t" using S t0 by (intro fmul_nonneg) simp_all
  ultimately show ?thesis
    by (simp add: r_px_def Let_def d_def [symmetric] t_def [symmetric] S_def [symmetric] py_int_floor)
qed

lemma hole_px_le:
  assumes "1 \<le> render_px g"
  shows "hole_px req g \<le> render_px g"
proof -
  define c where "c = clamp (hole_percentage req) 0 (lit (1 / 5))"
  define R where "R = (of_int (render_px g) :: rat)"
  have R: "1 \<le> R" using assms by (simp add: R_def)
  have c: "0 \<le> c" "c \<le> 1 / 4"
    using clamp_bounds [of 0 "lit (1 / 5)" "hole_percentage req"] lit_consts(3,4) by (simp_all add: c_def)
  have x0: "0 \<le> R * c" using R c by simp
  have "R * c \<le> R * (1 / 4)" using c R by (intro mult_left_mono) simp_all
  then have x1: "R * c \<le> R / 4" by simp
  have "fmul R c \<le> R * c * (9 / 8) + 1 / 8" unfolding fmul_def using x0 by (rule fl_round_upper)
  also have "\<dots> \<le> R / 4 * (9 / 8) + 1 / 8" using x1 by simp
  also have "\<dots> \<le> R" using R by simp
  finally have "fmul R c \<le> of_int (render_px g)" by (simp add: R_def)
  then have "\<lfloor>fmul R c\<rfloor> \<le> render_px g" by (simp add: floor_le_iff)
  moreover have "0 \<le> fmul R c" using x0 R c by (intro fmul_nonneg) simp_all
  ultimately show ?thesis
    by (simp add: hole_px_def c_def [symmetric] R_def [symmetric] py_int_floor)
qed

section \<open>Every call draws inside the symbol square\<close>

text \<open>
  For a valid request the module size is between 1 and 1080 and the symbol is more than
  half the canvas wide. A data module is drawn inside its own cell (closed at both ends),
  the hole inside the symbol, and the logo, at most 216 pixels wide, as well.
\<close>

lemma resolve_valid:
  assumes "valid_request req" and "resolve req m = Inr g"
  shows "1 \<le> gS g" "gS g \<le> 1080" "1 \<le> gB g" "gN g = int (length m)"
    "render_px g = (gN g + 2 * gB g) * gS g" "541 \<le> render_px g" "render_px g \<le> 1080"
    "offset g = (1080 - render_px g) div 2" "0 \<le> offset g"
proof -
  note r = resolve_Inr [OF assms(2)]
  have v: "pixel_size req = 1080" "1 \<le> quiet_zone_modules req"
    using assms(1) by (simp_all add: valid_request_def)
  define mt where "mt = int (length m) + 2 * quiet_zone_modules req"
  have mt: "2 \<le> mt" using v by (simp add: mt_def)
  have S: "gS g = 1080 div mt" using r(3) v by (simp add: mt_def)
  show "1 \<le> gS g" by (rule r(4))
  have "1080 div mt \<le> 1080 div 1" using mt by (intro zdiv_mono2) simp_all
  then show "gS g \<le> 1080" using S by simp
  show "1 \<le> gB g" using r(2) v by simp
  show "gN g = int (length m)" by (rule r(1))
  show rp: "render_px g = (gN g + 2 * gB g) * gS g" using r by simp
  have rp': "render_px g = mt * (1080 div mt)" using r(5) S by (simp add: mt_def)
  have eq: "1080 = mt * (1080 div mt) + 1080 mod mt" by simp
  have m0: "0 \<le> 1080 mod mt" "1080 mod mt < mt" using mt by simp_all
  have "mt * 1 \<le> mt * (1080 div mt)" using r(4) S mt by (intro mult_left_mono) simp_all
  then have "mt \<le> render_px g" using rp' by simp
  then show "541 \<le> render_px g" using eq m0 rp' by linarith
  show le: "render_px g \<le> 1080" using eq m0 rp' by linarith
  show "offset g = (1080 - render_px g) div 2" using r(6) v by simp
  then show "0 \<le> offset g" using le by simp
qed

lemma data_op_in_cell:
  assumes "1 \<le> gS g" and "gS g \<le> 1080" and "covers P (data_op req g DARK (r, c)) p"
  shows "in_box (rect_for_block g (int r) (int c) 1) p"
proof (cases "dot_style req")
  case False
  then show ?thesis using assms(3) by (simp add: data_op_def Let_def)
next
  case True
  have rad: "r_px req g \<le> gS g div 2" using assms(1,2) by (rule r_px_le_half)
  have "2 * (gS g div 2) \<le> gS g" by simp
  then have "gS g div 2 + r_px req g \<le> gS g" using rad by linarith
  then show ?thesis using True rad covers_in_box [OF assms(3)]
    by (auto simp: data_op_def Let_def in_box_def rect_for_block_def)
qed

lemma data_cells_bounds:
  "(r, c) \<in> set (data_cells m) \<Longrightarrow> r < length m \<and> c < length m"
  by (simp add: data_cells_iff)

lemma data_op_in_square:
  assumes "valid_request req" and "resolve req m = Inr g"
    and "op \<in> set (map (data_op req g DARK) (data_cells m))" and "covers P op p"
  shows "in_box (symbol_square g) p"
proof -
  note v = resolve_valid [OF assms(1,2)]
  from assms(3) obtain r c where rc: "(r, c) \<in> set (data_cells m)" and op: "op = data_op req g DARK (r, c)"
    by auto
  have b: "r < length m" "c < length m" using data_cells_bounds [OF rc] by simp_all
  have "in_box (rect_for_block g (int r) (int c) 1) p"
    using assms(4) unfolding op by (rule data_op_in_cell [OF v(1,2)])
  then show ?thesis using v b by (intro rect_in_square [of g "int r" "int c" 1 p]) simp_all
qed

lemma hole_ops_in_square:
  assumes "1 \<le> render_px g" and "op \<in> set (hole_ops req g LIGHT)" and "covers P op p"
  shows "in_box (symbol_square g) p"
proof -
  have h: "hole_px req g div 2 \<le> render_px g div 2"
    by (intro zdiv_mono1 hole_px_le assms(1)) simp
  have "2 * (render_px g div 2) \<le> render_px g" by simp
  then have "render_px g div 2 + hole_px req g div 2 \<le> render_px g" using h by linarith
  then show ?thesis using assms(2) covers_in_box [OF assms(3)] h
    by (auto simp: hole_ops_def Let_def in_box_def symbol_square_def split: if_splits)
qed

lemma logo_ops_cases:
  "logo_ops P req g = [] \<or>
   (\<exists>logo small.
      thumbnail P logo (py_int (fmul (of_int (pixel_size req)) (lit (1 / 5))),
                        py_int (fmul (of_int (pixel_size req)) (lit (1 / 5)))) = Some small
      \<and> logo_ops P req g =
          [AlphaComposite small (offset g + render_px g div 2 - width small div 2,
                                 offset g + render_px g div 2 - height small div 2)])"
proof (cases "logo_base64 req")
  case None
  then show ?thesis by (simp add: logo_ops_def)
next
  case (Some s)
  show ?thesis
  proof (cases "use_logo req \<and> s \<noteq> []")
    case False
    then have "logo_ops P req g = []" using Some by (auto simp: logo_ops_def)
    then show ?thesis by simp
  next
    case True
    show ?thesis
    proof (cases "load_logo P (last_field s)")
      case None
      then show ?thesis using Some True by (simp add: logo_ops_def)
    next
      case L: (Some logo)
      show ?thesis
      proof (cases "thumbnail P logo (py_int (fmul (of_int (pixel_size req)) (lit (1 / 5))),
                        py_int (fmul (of_int (pixel_size req)) (lit (1 / 5))))")
        case None
        then show ?thesis using Some True L by (simp add: logo_ops_def Let_def)
      next
        case T: (Some small)
        then have "logo_ops P req g =
          [AlphaComposite small (offset g + render_px g div 2 - width small div 2,
                                 offset g + render_px g div 2 - height small div 2)]"
          using Some True L by (simp add: logo_ops_def Let_def)
        with T show ?thesis by blast
      qed
    qed
  qed
qed

lemma logo_ops_in_square:
  assumes "valid_request req" and "thumbnail_ok P" and "541 \<le> render_px g"
    and "op \<in> set (logo_ops P req g)" and "covers P op p"
  shows "in_box (symbol_square g) p"
proof -
  have ms: "py_int (fmul (of_int (pixel_size req)) (lit (1 / 5))) = 216"
    using assms(1) max_side_1080 by (simp add: valid_request_def)
  from logo_ops_cases [of P req g] assms(4)
  obtain logo small where t: "thumbnail P logo (216, 216) = Some small"
    and op: "op = AlphaComposite small (offset g + render_px g div 2 - width small div 2,
                                     offset g + render_px g div 2 - height small div 2)"
    unfolding ms by auto
  from assms(2) t have sz: "width small \<le> 216" "height small \<le> 216"
    unfolding thumbnail_ok_def by blast+
  have half: "270 \<le> render_px g div 2" using assms(3) by simp
  have rp: "2 * (render_px g div 2) \<le> render_px g" by simp
  have w: "width small div 2 \<le> 108" "width small - width small div 2 \<le> 108" using sz(1) by simp_all
  have h: "height small div 2 \<le> 108" "height small - height small div 2 \<le> 108" using sz(2) by simp_all
  show ?thesis using assms(5) half rp w h unfolding op
    by (auto simp: in_box_def symbol_square_def)
qed

section \<open>The calls behind a returned image\<close>

text \<open>
  A run that returns an image has resolved the geometry, parsed both colours and found
  full rows; the image is the canvas after the calls, in order.
\<close>

lemma bind_err_Inr:
  assumes "bind_err x f = Inr y"
  obtains v where "x = Inr v" "f v = Inr y"
  using assms by (cases x) (simp_all add: bind_err_def)

lemma data_ops_Inr:
  assumes "data_ops req g DARK m = Inr dots"
  shows "rows_ok m" "dots = map (data_op req g DARK) (data_cells m)"
  using assms by (auto simp: data_ops_def rows_ok_def not_less split: if_splits)

lemma draw_calls_Inr:
  assumes "draw_calls P req m = Inr ops"
  obtains g DARK LIGHT where "resolve req m = Inr g"
    "parse_hex_rgba (foreground req) (0, 0, 0, 255) = Inr DARK"
    "parse_hex_rgba (background req) (255, 255, 255, 255) = Inr LIGHT"
    "rows_ok m"
    "ops = background_op req g LIGHT # finder_ops req g DARK LIGHT
          @ map (data_op req g DARK) (data_cells m)
          @ hole_ops req g LIGHT @ logo_ops P req g"
proof -
  from assms obtain g where g: "resolve req m = Inr g"
    and 1: "bind_err (parse_hex_rgba (foreground req) (0, 0, 0, 255)) (\<lambda>DARK.
     bind_err (parse_hex_rgba (background req) (255, 255, 255, 255)) (\<lambda>LIGHT.
     bind_err (data_ops req g DARK m) (\<lambda>dots.
     Inr (background_op req g LIGHT # finder_ops req g DARK LIGHT @ dots
            @ hole_ops req g LIGHT @ logo_ops P req g)))) = Inr ops"
    unfolding draw_calls_def by (rule bind_err_Inr)
  from 1 obtain DARK where d: "parse_hex_rgba (foreground req) (0, 0, 0, 255) = Inr DARK"
    and 2: "bind_err (parse_hex_rgba (background req) (255, 255, 255, 255)) (\<lambda>LIGHT.
     bind_err (data_ops req g DARK m) (\<lambda>dots.
     Inr (background_op req g LIGHT # finder_ops req g DARK LIGHT @ dots
            @ hole_ops req g LIGHT @ logo_ops P req g))) = Inr ops"
    by (rule bind_err_Inr)
  from 2 obtain LIGHT where l: "parse_hex_rgba (background req) (255, 255, 255, 255) = Inr LIGHT"
    and 3: "bind_err (data_ops req g DARK m) (\<lambda>dots.
     Inr (background_op req g LIGHT # finder_ops req g DARK LIGHT @ dots
            @ hole_ops req g LIGHT @ logo_ops P req g)) = Inr ops"
    by (rule bind_err_Inr)
  from 3 obtain dots where 4: "data_ops req g DARK m = Inr dots"
    and 5: "Inr (background_op req g LIGHT # finder_ops req g DARK LIGHT @ dots
            @ hole_ops req g LIGHT @ logo_ops P req g) = (Inr ops :: error + draw_op list)"
    by (rule bind_err_Inr)
  from data_ops_Inr [OF 4] 5 show ?thesis
    by (intro that [OF g d l]) simp_all
qed

lemma draw_qr_Inr:
  assumes "draw_qr P req m = Inr img"
  obtains ops where "draw_calls P req m = Inr ops"
    "img = foldl (paint P) (new_image (pixel_size req)) ops"
  using assms unfolding draw_qr_def by (rule bind_err_Inr) auto

lemma background_in_square:
  "covers P (background_op req g LIGHT) p \<Longrightarrow> in_box (symbol_square g) p"
  by (simp add: background_op_def symbol_square_def)

section \<open>The corner of the quiet zone\<close>

text \<open>
  In the top left corner of the quiet zone only the background and the separator of the
  top left finder can paint: every other finder layer and every data module starts at or
  beyond the first module row or column.
\<close>

lemma rect_not_corner:
  assumes "0 \<le> gS g" and "0 \<le> r \<or> 0 \<le> c" and "in_box (rect_for_block g r c w) p"
  shows "\<not> quiet_corner g p"
proof -
  have "0 \<le> c \<Longrightarrow> gB g * gS g \<le> (gB g + c) * gS g"
    using assms(1) by (intro mult_right_mono) simp_all
  moreover have "0 \<le> r \<Longrightarrow> gB g * gS g \<le> (gB g + r) * gS g"
    using assms(1) by (intro mult_right_mono) simp_all
  ultimately show ?thesis using assms(2,3)
    by (auto simp: quiet_corner_def in_box_def rect_for_block_def Let_def)
qed

lemma finder_ops_tail:
  assumes "0 \<le> gS g" and "8 \<le> gN g"
  obtains rest where
    "finder_ops req g DARK LIGHT = Rectangle (rect_for_block g (- 1) (- 1) 9) LIGHT # rest"
    "\<forall>op \<in> set rest. \<forall>p. covers P op p \<longrightarrow> \<not> quiet_corner g p"
proof -
  define rest where "rest = tl (finder_ops req g DARK LIGHT)"
  have hd: "finder_ops req g DARK LIGHT = Rectangle (rect_for_block g (- 1) (- 1) 9) LIGHT # rest"
    unfolding rest_def
    by (cases "rounded_finders req") (simp_all add: finder_ops_def draw_finder_def Let_def)
  have mb: "map op_box rest =
     map (\<lambda>b. rect_for_block g (fst b) (fst (snd b)) (snd (snd b))) (tl (finder_blocks (gN g)))"
    unfolding rest_def by (simp add: map_tl finder_ops_boxes)
  have boxes: "op_box op \<in> (\<lambda>b. rect_for_block g (fst b) (fst (snd b)) (snd (snd b)))
        ` set (tl (finder_blocks (gN g)))" if "op \<in> set rest" for op
  proof -
    from that have "op_box op \<in> set (map op_box rest)" by simp
    then show ?thesis by (simp only: mb set_map)
  qed
  have "\<not> quiet_corner g p" if op: "op \<in> set rest" and c: "covers P op p" for op p
  proof -
    from boxes [OF op] obtain b where b: "b \<in> set (tl (finder_blocks (gN g)))"
      and box: "op_box op = rect_for_block g (fst b) (fst (snd b)) (snd (snd b))" by auto
    from b assms(2) have "0 \<le> fst b \<or> 0 \<le> fst (snd b)"
      by (auto simp: finder_blocks_def)
    moreover have "in_box (rect_for_block g (fst b) (fst (snd b)) (snd (snd b))) p"
      using covers_in_box [OF c] box by simp
    ultimately show ?thesis using assms(1) by (intro rect_not_corner)
  qed
  then show ?thesis using hd by (intro that [of rest]) auto
qed

lemma data_op_not_corner:
  assumes "1 \<le> gS g" and "gS g \<le> 1080" and "covers P (data_op req g DARK (r, c)) p"
  shows "\<not> quiet_corner g p"
proof -
  have "in_box (rect_for_block g (int r) (int c) 1) p" using assms by (rule data_op_in_cell)
  then show ?thesis using assms(1) by (intro rect_not_corner [of g "int r" "int c" 1 p]) simp_all
qed

lemma logo_ops_unused:
  "\<not> use_logo req \<or> logo_base64 req = None \<Longrightarrow> logo_ops P req g = []"
  by (auto simp: logo_ops_def split: option.splits)

lemma corner_pixel:
  assumes "valid_request req" and "21 \<le> length m" and "resolve req m = Inr g"
    and "parse_hex_rgba (background req) (255, 255, 255, 255) = Inr LIGHT"
    and "draw_qr P req m = Inr img"
    and "hole_ops req g LIGHT = []" and "logo_ops P req g = []"
    and "quiet_corner g p"
  shows "pix img p =
     (if covers P (background_op req g LIGHT) p \<or> in_box (rect_for_block g (- 1) (- 1) 9) p
      then ink P LIGHT else (0, 0, 0, 0))"
proof -
  note v = resolve_valid [OF assms(1,3)]
  from assms(5) obtain ops where calls: "draw_calls P req m = Inr ops"
    and img: "img = foldl (paint P) (new_image (pixel_size req)) ops"
    by (rule draw_qr_Inr)
  from calls obtain g' DARK LIGHT' where g': "resolve req m = Inr g'"
    and l': "parse_hex_rgba (background req) (255, 255, 255, 255) = Inr LIGHT'"
    and ops: "ops = background_op req g' LIGHT' # finder_ops req g' DARK LIGHT'
          @ map (data_op req g' DARK) (data_cells m)
          @ hole_ops req g' LIGHT' @ logo_ops P req g'"
    by (rule draw_calls_Inr)
  from g' assms(3) l' assms(4) have [simp]: "g' = g" "LIGHT' = LIGHT" by simp_all
  have N: "8 \<le> gN g" using v(4) assms(2) by simp
  have S0: "0 \<le> gS g" using v(1) by simp
  obtain rest where fin: "finder_ops req g DARK LIGHT = Rectangle (rect_for_block g (- 1) (- 1) 9) LIGHT # rest"
    and rest: "\<forall>op \<in> set rest. \<forall>p. covers P op p \<longrightarrow> \<not> quiet_corner g p"
    using finder_ops_tail [of g req DARK LIGHT P thesis] S0 N by blast
  define front where "front = [background_op req g LIGHT, Rectangle (rect_for_block g (- 1) (- 1) 9) LIGHT]"
  define later where "later = rest @ map (data_op req g DARK) (data_cells m)"
  have split: "ops = front @ later"
    by (simp add: ops fin front_def later_def assms(6,7))
  have nb: "\<forall>op \<in> set later. \<not> covers P op p"
  proof
    fix op assume "op \<in> set later"
    then consider "op \<in> set rest" | r c where "op = data_op req g DARK (r, c)"
      by (auto simp: later_def)
    then show "\<not> covers P op p"
    proof cases
      case 1
      then show ?thesis using rest assms(8) by blast
    next
      case 2
      then show ?thesis using data_op_not_corner [OF v(1,2), of P req DARK r c p] assms(8) by blast
    qed
  qed
  have canvas: "in_canvas (new_image (pixel_size req)) p"
  proof -
    have "gB g * gS g \<le> (gN g + 2 * gB g) * gS g"
      using v by (intro mult_right_mono) simp_all
    then have bs: "gB g * gS g \<le> render_px g" using v(5) by simp
    have "2 * ((1080 - render_px g) div 2) \<le> 1080 - render_px g" by simp
    then have top: "offset g + render_px g \<le> 1080" using v(7,8) by linarith
    have x: "offset g \<le> fst p" "fst p < offset g + gB g * gS g"
      and y: "offset g \<le> snd p" "snd p < offset g + gB g * gS g"
      using assms(8) by (simp_all add: quiet_corner_def)
    have "0 \<le> fst p" "fst p < 1080" "0 \<le> snd p" "snd p < 1080"
      using x y bs top v(9) by linarith+
    moreover have "pixel_size req = 1080" using assms(1) by (simp add: valid_request_def)
    ultimately show ?thesis by (simp add: in_canvas_def new_image_def)
  qed
  have "pix img p = pix (foldl (paint P) (new_image (pixel_size req)) front) p"
    unfolding img split foldl_append using nb by (rule foldl_paint_not_covered)
  also have "\<dots> = (if covers P (background_op req g LIGHT) p \<or> in_box (rect_for_block g (- 1) (- 1) 9) p
      then ink P LIGHT else (0, 0, 0, 0))"
  proof (cases "\<exists>op \<in> set front. covers P op p")
    case True
    have "\<forall>op \<in> set front. op_fill op = Some LIGHT" by (simp add: front_def background_op_def)
    then have "pix (foldl (paint P) (new_image (pixel_size req)) front) p = ink P LIGHT"
      using True canvas by (rule foldl_paint_same_fill)
    then show ?thesis using True by (simp add: front_def)
  next
    case False
    then have "pix (foldl (paint P) (new_image (pixel_size req)) front) p = pix (new_image (pixel_size req)) p"
      by (intro foldl_paint_not_covered) simp
    then show ?thesis using False by (simp add: front_def new_image_def)
  qed
  finally show ?thesis .
qed

section \<open>Runs on the sample matrix\<close>

lemma ink_sample: "ink sample_pil (255, 255, 255, 255) = (255, 255, 255, 255)"
  "ink sample_pil (0, 0, 0, 255) = (0, 0, 0, 255)"
  by (simp_all add: sample_pil_def clip8_def)

lemma draw_qr_sample:
  assumes "quiet_zone_modules req = 4" and "pixel_size req = 1080"
    and "foreground req = ''#000000''" and "background req = ''#ffffff''"
  obtains img where "draw_qr P req sample_matrix = Inr img"
    "width img = 1080" "height img = 1080"
proof -
  have g: "resolve req sample_matrix = Inr \<lparr>gN = 21, gB = 4, gS = 37, render_px = 1073, offset = 3\<rparr>"
    using assms(1,2) by (rule resolve_sample)
  from draw_qr_returns [OF g _ _ sample_rows_ok, of "(0, 0, 0, 255)" "(255, 255, 255, 255)" P]
  show ?thesis using that assms by (auto simp: parse_black parse_white)
qed

section \<open>Pixels under a data module\<close>


lemma data_pixel:
  assumes "resolve req m = Inr g"
    and "parse_hex_rgba (foreground req) (0, 0, 0, 255) = Inr DARK"
    and "parse_hex_rgba (background req) (255, 255, 255, 255) = Inr LIGHT"
    and "rows_ok m"
    and "hole_ops req g LIGHT = []" and "logo_ops P req g = []"
    and "0 \<le> fst p" and "fst p < pixel_size req" and "0 \<le> snd p" and "snd p < pixel_size req"
    and "(r, c) \<in> set (data_cells m)" and "covers P (data_op req g DARK (r, c)) p"
  shows "pixel_at (draw_qr P req m) p = Some (ink P DARK)"
proof -
  define front where "front = background_op req g LIGHT # finder_ops req g DARK LIGHT"
  define dots where "dots = map (data_op req g DARK) (data_cells m)"
  have calls: "draw_calls P req m = Inr (front @ dots)"
    using draw_calls_ok [OF assms(1-4), of P] by (simp add: front_def dots_def assms(5,6))
  define mid where "mid = foldl (paint P) (new_image (pixel_size req)) front"
  have canvas: "in_canvas mid p"
    using assms(7-10) by (simp add: mid_def in_canvas_def new_image_def)
  have fill: "\<forall>op \<in> set dots. op_fill op = Some DARK"
    by (auto simp: dots_def data_op_def Let_def)
  have cov: "\<exists>op \<in> set dots. covers P op p"
    using assms(11,12) by (auto simp: dots_def)
  have "pix (foldl (paint P) mid dots) p = ink P DARK"
    using fill cov canvas by (rule foldl_paint_same_fill)
  moreover have "draw_qr P req m = Inr (foldl (paint P) mid dots)"
    by (simp add: draw_qr_def calls bind_err_def mid_def)
  ultimately show ?thesis using canvas by (simp add: pixel_at_def)
qed

lemma sample_geom:
  "rect_for_block \<lparr>gN = 21, gB = 4, gS = 37, render_px = 1073, offset = 3\<rparr> r c w =
     (3 + (4 + c) * 37, 3 + (4 + r) * 37, 3 + (4 + c) * 37 + w * 37, 3 + (4 + r) * 37 + w * 37)"
  by (simp add: rect_for_block_def Let_def)

section \<open>The hole size\<close>



section \<open>Further facts about the calls\<close>

text \<open>
  The clamp as a case distinction, the finder calls by style, one data cell of the sample
  matrix, and the values of the radius expressions at module size 37.
\<close>

lemma clamp_cases:
  "lo \<le> hi \<Longrightarrow> clamp v lo hi = (if v < lo then lo else if hi < v then hi else v)"
  by (auto simp: clamp_def max_def min_def)

lemma finder_ops_rounded:
  "rounded_finders req \<Longrightarrow> finder_ops req g DARK LIGHT =
     concat (map (\<lambda>(t, l). draw_finder req g DARK LIGHT t l) [(0, 0), (0, gN g - 7), (gN g - 7, 0)])"
  by (simp add: finder_ops_def Let_def)

lemma finder_ops_square:
  "\<not> rounded_finders req \<Longrightarrow> op \<in> set (finder_ops req g DARK LIGHT) \<Longrightarrow> \<exists>b c. op = Rectangle b c"
  by (auto simp: finder_ops_def Let_def simp del: split_paired_Ex)

lemma sample_cell_10_10: "(10, 10) \<in> set (data_cells sample_matrix)"
  by (simp add: data_cells_iff sample_length) (simp add: sample_matrix_def in_finder_footprint_def)

lemma default_floors:
  "\<lfloor>fmul (finder_round_ratio default_request) (of_int 37)\<rfloor> = 16"
  "\<lfloor>fmul (fmul (finder_round_ratio default_request) (3 / 2)) (of_int 37)\<rfloor> = 24"
  "\<lfloor>fmul (fmul (finder_round_ratio default_request) (of_int 37)) 2\<rfloor> = 33"
  "\<lfloor>fmul (of_int 37) (fsub (1 / 2) (dot_margin default_request))\<rfloor> = 11"
  "\<lfloor>fmul (of_int 37) (fsub (1 / 2) (lit (49 / 100)))\<rfloor> = 0"
  "\<not> dot_margin default_request < 0" "\<not> lit (49 / 100) < dot_margin default_request"
  "lit (49 / 100) < 3 / 4" "0 \<le> finder_round_ratio default_request"
  by code_simp+






section \<open>Colour parsing\<close>

text \<open>The three scenarios of the tests, and a string of another length.\<close>

lemma parse_hex_rgba_scenarios:
  "parse_hex_rgba ''#fff'' (0, 0, 0, 0) = Inr (255, 255, 255, 255)"
  "parse_hex_rgba ''#112233'' (0, 0, 0, 0) = Inr (17, 34, 51, 255)"
  "parse_hex_rgba ''#112233AA'' (0, 0, 0, 0) = Inr (17, 34, 51, 170)"
  "parse_hex_rgba ''invalid'' (1, 1, 1, 1) = Inr (1, 1, 1, 1)"
  by code_simp+

text \<open>A string that is not of length 3, 6 or 8 after stripping gives the default.\<close>

lemma parse_hex_rgba_other_length:
  assumes "length (lstrip_hash (strip val)) \<notin> {3, 6, 8}"
  shows "parse_hex_rgba val dflt = Inr dflt"
  using assms by (simp add: parse_hex_rgba_def Let_def)

text \<open>
  Claim C6. Colour parsing is to return the caller's default for every string that is not
  one of the three hexadecimal forms. The code does so only when the length is wrong: a
  string of three, six or eight characters that are not hexadecimal digits reaches
  \<open>int(_, 16)\<close>, which raises \<open>ValueError\<close>. Here \<open>"#ggg"\<close> with default
  \<open>(1, 1, 1, 1)\<close> raises instead of returning the default.
\<close>

theorem parse_hex_rgba_non_hex_raises:
  "parse_hex_rgba ''#ggg'' (1, 1, 1, 1) = Inl InvalidLiteral"
  by code_simp


section \<open>Module geometry and the rectangles drawn\<close>




section \<open>Data modules and the finder footprints\<close>

text \<open>
  The cells that the data loops draw are exactly the dark cells outside the three
  footprints (lemma \<open>data_cells_iff\<close>), each drawn once.
\<close>

lemma data_cells_distinct: "distinct (data_cells m)"
proof -
  have inner: "distinct (concat (map (\<lambda>c. if P c then [] else [(r, c)]) [0..<n]))" for P r and n :: nat
    by (induction n) auto
  have cells: "set (concat (map (\<lambda>c.
         if \<not> m ! r ! c then []
         else if in_finder_footprint (int (length m)) (int r) (int c) then []
         else [(r, c)]) [0..<n])) \<subseteq> {r} \<times> UNIV" for r n
    by (auto split: if_splits)
  have "distinct (concat (map (\<lambda>r. concat (map (\<lambda>c.
         if \<not> m ! r ! c \<or> in_finder_footprint (int (length m)) (int r) (int c) then []
         else [(r, c)]) [0..<length m])) [0..<k]))" for k
  proof (induction k)
    case 0
    then show ?case by simp
  next
    case (Suc k)
    have "set (concat (map (\<lambda>r. concat (map (\<lambda>c.
         if \<not> m ! r ! c \<or> in_finder_footprint (int (length m)) (int r) (int c) then []
         else [(r, c)]) [0..<length m])) [0..<k])) \<subseteq> {0..<k} \<times> UNIV"
      by (auto split: if_splits)
    moreover have "set (concat (map (\<lambda>c.
         if \<not> m ! k ! c \<or> in_finder_footprint (int (length m)) (int k) (int c) then []
         else [(k, c)]) [0..<length m])) \<subseteq> {k} \<times> UNIV"
      by (auto split: if_splits)
    ultimately show ?case using Suc inner [of _ k "length m"] by (auto simp del: set_concat)
  qed
  moreover have "(\<lambda>r. concat (map (\<lambda>c.
         if \<not> m ! r ! c then []
         else if in_finder_footprint (int (length m)) (int r) (int c) then []
         else [(r, c)]) [0..<length m])) = (\<lambda>r. concat (map (\<lambda>c.
         if \<not> m ! r ! c \<or> in_finder_footprint (int (length m)) (int r) (int c) then []
         else [(r, c)]) [0..<length m]))"
    by (intro ext arg_cong [where f = concat] map_cong) auto
  ultimately show ?thesis unfolding data_cells_def by simp
qed

text \<open>
  Claim C2. Data-module drawing is to touch no pixel inside a finder footprint. At module
  level it does not, but a square module is drawn on the rectangle of its cell with both
  end points included, one pixel into the next cell. On the sample matrix with square
  modules, the timing module \<open>(6, 12)\<close> (dark in every symbol of side 21) is drawn on
  \<open>(595, 373, 632, 410)\<close>; the pixel column 632 is the first column of cell \<open>(6, 13)\<close>, which
  lies in the footprint of the top right finder (its separator starts at 632), and pixel
  \<open>(632, 380)\<close> ends in the foreground colour.
\<close>

theorem square_module_touches_footprint:
  "(6, 12) \<in> set (data_cells sample_matrix)
   \<and> data_op (default_request\<lparr>dot_style := False\<rparr>)
        \<lparr>gN = 21, gB = 4, gS = 37, render_px = 1073, offset = 3\<rparr> (0, 0, 0, 255) (6, 12)
       = Rectangle (595, 373, 632, 410) (0, 0, 0, 255)
   \<and> in_finder_footprint 21 6 13
   \<and> rect_for_block \<lparr>gN = 21, gB = 4, gS = 37, render_px = 1073, offset = 3\<rparr> 6 13 1
       = (632, 373, 669, 410)
   \<and> rect_for_block \<lparr>gN = 21, gB = 4, gS = 37, render_px = 1073, offset = 3\<rparr> (- 1) 13 9
       = (632, 114, 965, 447)
   \<and> pixel_at (draw_qr sample_pil (default_request\<lparr>dot_style := False\<rparr>) sample_matrix) (632, 380)
       = Some (0, 0, 0, 255)"
proof -
  define req where "req = default_request\<lparr>dot_style := False\<rparr>"
  define g where "g = \<lparr>gN = 21, gB = 4, gS = 37, render_px = 1073, offset = 3\<rparr>"
  have g: "resolve req sample_matrix = Inr g"
    unfolding g_def by (rule resolve_sample) (simp_all add: req_def default_request_def)
  have d: "parse_hex_rgba (foreground req) (0, 0, 0, 255) = Inr (0, 0, 0, 255)"
    by (simp add: req_def default_request_def parse_black)
  have l: "parse_hex_rgba (background req) (255, 255, 255, 255) = Inr (255, 255, 255, 255)"
    by (simp add: req_def default_request_def parse_white)
  have ho: "hole_ops req g (255, 255, 255, 255) = []"
    by (simp add: hole_ops_def req_def default_request_def)
  have lo: "logo_ops sample_pil req g = []"
    by (intro logo_ops_unused) (simp add: req_def default_request_def)
  have cell: "(6, 12) \<in> set (data_cells sample_matrix)"
    by (simp add: data_cells_iff sample_length) (simp add: sample_matrix_def in_finder_footprint_def)
  have op: "data_op req g (0, 0, 0, 255) (6, 12) = Rectangle (595, 373, 632, 410) (0, 0, 0, 255)"
    by (simp add: data_op_def Let_def req_def g_def sample_geom)
  have cov: "covers sample_pil (data_op req g (0, 0, 0, 255) (6, 12)) (632, 380)"
    unfolding op by (simp add: in_box_def)
  have px: "pixel_at (draw_qr sample_pil req sample_matrix) (632, 380) = Some (ink sample_pil (0, 0, 0, 255))"
    by (rule data_pixel [OF g d l sample_rows_ok ho lo _ _ _ _ cell cov])
       (simp_all add: req_def default_request_def)
  have fp: "in_finder_footprint 21 6 13" by (simp add: in_finder_footprint_def)
  show ?thesis using cell op fp px unfolding req_def g_def by (simp add: sample_geom ink_sample)
qed

section \<open>Failure of the renderer\<close>

text \<open>
  Claim C3. The renderer is to fail only when the module size is below one. The too-small
  error is raised exactly then (lemma \<open>draw_qr_too_small\<close>), but it is not the only failure:
  \<open>draw_qr\<close> parses the two colour strings itself, and a colour string of three, six or
  eight characters that are not hexadecimal digits makes \<open>int(_, 16)\<close> raise. Here the
  default request with foreground \<open>"#ggg"\<close> has module size 37 and the run ends with that
  \<open>ValueError\<close>.
\<close>

theorem draw_qr_raises_on_colour:
  "resolve (default_request\<lparr>foreground := ''#ggg''\<rparr>) sample_matrix
     = Inr \<lparr>gN = 21, gB = 4, gS = 37, render_px = 1073, offset = 3\<rparr>
   \<and> draw_qr sample_pil (default_request\<lparr>foreground := ''#ggg''\<rparr>) sample_matrix
     = Inl InvalidLiteral"
proof -
  have g: "resolve (default_request\<lparr>foreground := ''#ggg''\<rparr>) sample_matrix
     = Inr \<lparr>gN = 21, gB = 4, gS = 37, render_px = 1073, offset = 3\<rparr>"
    by (rule resolve_sample) (simp_all add: default_request_def)
  have "parse_hex_rgba ''#ggg'' (0, 0, 0, 255) = Inl InvalidLiteral" by code_simp
  then have "draw_calls sample_pil (default_request\<lparr>foreground := ''#ggg''\<rparr>) sample_matrix
     = Inl InvalidLiteral"
    by (simp add: draw_calls_def g bind_err_def)
  then show ?thesis using g by (simp add: draw_qr_def bind_err_def)
qed

section \<open>Finder patterns\<close>



section \<open>Radii\<close>

text \<open>
  Claim C5, as amended. In a run that returns, with a ratio that is not negative, every
  radius is the integer part (the floor) of the binary64 value of its expression, not its
  rounding to the nearest integer. The calls of the run, from which the returned raster is
  painted, are: the background, a rounded rectangle with radius
  \<open>floor(finder_round_ratio * S * 2.0)\<close> when \<open>rounded_canvas\<close> is set and 0 otherwise; the
  finder layers, which with \<open>rounded_finders\<close> are for each of the three finders the
  separator rectangle, the 7 by 7 and the 5 by 5 layer with the band radius
  \<open>floor(finder_round_ratio * S)\<close> and the 3 by 3 eye with the radius
  \<open>floor(finder_round_ratio * 1.5 * S)\<close>, and without it plain rectangles; the data modules,
  which with \<open>dot_style\<close> are circles of radius \<open>floor(S * (0.5 - margin))\<close> around the
  centre of their cell, where \<open>margin\<close> is \<open>dot_margin\<close> brought into \<open>[0, 0.49]\<close>, and
  without it plain rectangles; then the hole and the logo. No radius is negative.
\<close>

theorem radii_truncate:
  assumes "resolve req m = Inr g"
    and "parse_hex_rgba (foreground req) (0, 0, 0, 255) = Inr DARK"
    and "parse_hex_rgba (background req) (255, 255, 255, 255) = Inr LIGHT"
    and "rows_ok m" and "0 \<le> finder_round_ratio req"
  shows "\<exists>band eye corner margin dot fin dat ops.
       band = \<lfloor>fmul (finder_round_ratio req) (of_int (gS g))\<rfloor>
     \<and> eye = \<lfloor>fmul (fmul (finder_round_ratio req) (3 / 2)) (of_int (gS g))\<rfloor>
     \<and> corner = \<lfloor>fmul (fmul (finder_round_ratio req) (of_int (gS g))) 2\<rfloor>
     \<and> margin = (if dot_margin req < 0 then 0
                  else if lit (49 / 100) < dot_margin req then lit (49 / 100) else dot_margin req)
     \<and> dot = \<lfloor>fmul (of_int (gS g)) (fsub (1 / 2) margin)\<rfloor>
     \<and> 0 \<le> band \<and> 0 \<le> eye \<and> 0 \<le> corner \<and> 0 \<le> dot
     \<and> ops = RoundedRectangle (offset g, offset g, offset g + render_px g, offset g + render_px g)
                (if rounded_canvas req then corner else 0) LIGHT
              # fin @ dat @ hole_ops req g LIGHT @ logo_ops P req g
     \<and> draw_calls P req m = Inr ops
     \<and> draw_qr P req m = Inr (foldl (paint P) (new_image (pixel_size req)) ops)
     \<and> (rounded_finders req \<longrightarrow> fin =
           concat (map (\<lambda>(t, l).
               [Rectangle (rect_for_block g (t - 1) (l - 1) 9) LIGHT,
                RoundedRectangle (rect_for_block g t l 7) band DARK,
                RoundedRectangle (rect_for_block g (t + 1) (l + 1) 5) band LIGHT,
                RoundedRectangle (rect_for_block g (t + 2) (l + 2) 3) eye DARK])
             [(0, 0), (0, gN g - 7), (gN g - 7, 0)]))
     \<and> (\<not> rounded_finders req \<longrightarrow> (\<forall>op \<in> set fin. \<exists>b c. op = Rectangle b c))
     \<and> (dot_style req \<longrightarrow> dat =
           map (\<lambda>(r, c).
               Ellipse (offset g + (gB g + int c) * gS g + gS g div 2 - dot,
                        offset g + (gB g + int r) * gS g + gS g div 2 - dot,
                        offset g + (gB g + int c) * gS g + gS g div 2 + dot,
                        offset g + (gB g + int r) * gS g + gS g div 2 + dot) DARK)
             (data_cells m))
     \<and> (\<not> dot_style req \<longrightarrow> (\<forall>op \<in> set dat. \<exists>b c. op = Rectangle b c))"
proof -
  define band where "band = \<lfloor>fmul (finder_round_ratio req) (of_int (gS g))\<rfloor>"
  define eye where "eye = \<lfloor>fmul (fmul (finder_round_ratio req) (3 / 2)) (of_int (gS g))\<rfloor>"
  define corner where "corner = \<lfloor>fmul (fmul (finder_round_ratio req) (of_int (gS g))) 2\<rfloor>"
  define margin where "margin = (if dot_margin req < 0 then 0
                  else if lit (49 / 100) < dot_margin req then lit (49 / 100) else dot_margin req)"
  define dot where "dot = \<lfloor>fmul (of_int (gS g)) (fsub (1 / 2) margin)\<rfloor>"
  define fin where "fin = finder_ops req g DARK LIGHT"
  define dat where "dat = map (data_op req g DARK) (data_cells m)"
  define ops where "ops = RoundedRectangle (offset g, offset g, offset g + render_px g, offset g + render_px g)
                (if rounded_canvas req then corner else 0) LIGHT
              # fin @ dat @ hole_ops req g LIGHT @ logo_ops P req g"
  have S: "0 \<le> (of_int (gS g) :: rat)" using resolve_Inr(4) [OF assms(1)] by simp
  note q = assms(5)
  have b: "0 \<le> fmul (finder_round_ratio req) (of_int (gS g))" using q S by (rule fmul_nonneg)
  have e: "0 \<le> fmul (fmul (finder_round_ratio req) (3 / 2)) (of_int (gS g))"
    by (rule fmul_nonneg, rule fmul_nonneg) (use q S in simp_all)
  have c: "0 \<le> fmul (fmul (finder_round_ratio req) (of_int (gS g))) 2"
    by (rule fmul_nonneg) (use b in simp_all)
  have mg: "clamp (dot_margin req) 0 (lit (49 / 100)) = margin"
    unfolding margin_def using lit_consts(1) by (rule clamp_cases)
  have d: "0 \<le> fmul (of_int (gS g)) (fsub (1 / 2) margin)"
    using S dot_factor_nonneg [of "dot_margin req"] unfolding mg by (rule fmul_nonneg)
  have rb: "r_band req g = band" using b by (simp add: r_band_def band_def py_int_floor)
  have re: "r_eye req g = eye" using e by (simp add: r_eye_def eye_def py_int_floor)
  have rc: "bg_radius req g = (if rounded_canvas req then corner else 0)"
    using c by (simp add: bg_radius_def corner_def py_int_floor)
  have rd: "r_px req g = dot" using d by (simp add: r_px_def Let_def mg dot_def py_int_floor)
  have nn: "0 \<le> band" "0 \<le> eye" "0 \<le> corner" "0 \<le> dot"
    using b e c d by (simp_all add: band_def eye_def corner_def dot_def)
  have calls: "draw_calls P req m = Inr ops"
    using draw_calls_ok [OF assms(1-4), of P]
    by (simp add: ops_def fin_def dat_def background_op_def rc)
  have img: "draw_qr P req m = Inr (foldl (paint P) (new_image (pixel_size req)) ops)"
    by (simp add: draw_qr_def calls bind_err_def)
  have f1: "rounded_finders req \<longrightarrow> fin =
           concat (map (\<lambda>(t, l).
               [Rectangle (rect_for_block g (t - 1) (l - 1) 9) LIGHT,
                RoundedRectangle (rect_for_block g t l 7) band DARK,
                RoundedRectangle (rect_for_block g (t + 1) (l + 1) 5) band LIGHT,
                RoundedRectangle (rect_for_block g (t + 2) (l + 2) 3) eye DARK])
             [(0, 0), (0, gN g - 7), (gN g - 7, 0)])"
    by (simp add: fin_def finder_ops_rounded draw_finder_def rb re)
  have f2: "\<not> rounded_finders req \<longrightarrow> (\<forall>op \<in> set fin. \<exists>b c. op = Rectangle b c)"
    unfolding fin_def using finder_ops_square by blast
  have d1: "dot_style req \<longrightarrow> dat =
           map (\<lambda>(r, c).
               Ellipse (offset g + (gB g + int c) * gS g + gS g div 2 - dot,
                        offset g + (gB g + int r) * gS g + gS g div 2 - dot,
                        offset g + (gB g + int c) * gS g + gS g div 2 + dot,
                        offset g + (gB g + int r) * gS g + gS g div 2 + dot) DARK)
             (data_cells m)"
    by (auto simp: dat_def data_op_def Let_def rd)
  have d2: "\<not> dot_style req \<longrightarrow> (\<forall>op \<in> set dat. \<exists>b c. op = Rectangle b c)"
    by (auto simp: dat_def data_op_def Let_def simp del: split_paired_Ex)
  show ?thesis
    apply (rule exI [of _ band], rule exI [of _ eye], rule exI [of _ corner], rule exI [of _ margin])
    apply (rule exI [of _ dot], rule exI [of _ fin], rule exI [of _ dat], rule exI [of _ ops])
    apply (rule conjI [OF band_def], rule conjI [OF eye_def], rule conjI [OF corner_def])
    apply (rule conjI [OF margin_def], rule conjI [OF dot_def])
    apply (rule conjI [OF nn(1)], rule conjI [OF nn(2)], rule conjI [OF nn(3)], rule conjI [OF nn(4)])
    apply (rule conjI [OF ops_def], rule conjI [OF calls], rule conjI [OF img])
    apply (rule conjI [OF f1], rule conjI [OF f2], rule conjI [OF d1])
    apply (rule d2)
    done
qed

text \<open>
  The default request on the sample matrix: radii 33, 16, 16, 24 and 11. With a dot margin
  of 0.75, outside the range, the margin used is 0.49 and the dot radius is 0.
\<close>

theorem radii_truncate_witness:
  "resolve default_request sample_matrix = Inr \<lparr>gN = 21, gB = 4, gS = 37, render_px = 1073, offset = 3\<rparr>
   \<and> parse_hex_rgba (foreground default_request) (0, 0, 0, 255) = Inr (0, 0, 0, 255)
   \<and> parse_hex_rgba (background default_request) (255, 255, 255, 255) = Inr (255, 255, 255, 255)
   \<and> rows_ok sample_matrix \<and> 0 \<le> finder_round_ratio default_request
   \<and> (\<exists>ops. draw_calls sample_pil default_request sample_matrix = Inr ops
         \<and> draw_qr sample_pil default_request sample_matrix
               = Inr (foldl (paint sample_pil) (new_image 1080) ops)
         \<and> ops ! 0 = RoundedRectangle (3, 3, 1076, 1076) 33 (255, 255, 255, 255)
         \<and> ops ! 2 = RoundedRectangle (151, 151, 410, 410) 16 (0, 0, 0, 255)
         \<and> ops ! 3 = RoundedRectangle (188, 188, 373, 373) 16 (255, 255, 255, 255)
         \<and> ops ! 4 = RoundedRectangle (225, 225, 336, 336) 24 (0, 0, 0, 255)
         \<and> Ellipse (528, 528, 550, 550) (0, 0, 0, 255) \<in> set ops)
   \<and> (\<exists>ops. draw_calls sample_pil (default_request\<lparr>dot_margin := 3 / 4\<rparr>) sample_matrix = Inr ops
         \<and> Ellipse (539, 539, 539, 539) (0, 0, 0, 255) \<in> set ops)"
proof -
  define g where "g = \<lparr>gN = 21, gB = 4, gS = 37, render_px = 1073, offset = 3\<rparr>"
  have gs: "gS g = 37" "gB g = 4" "offset g = 3" "render_px g = 1073" "gN g = 21" by (simp_all add: g_def)
  have g: "resolve default_request sample_matrix = Inr g"
    unfolding g_def by (rule resolve_sample) (simp_all add: default_request_def)
  have d: "parse_hex_rgba (foreground default_request) (0, 0, 0, 255) = Inr (0, 0, 0, 255)"
    by (simp add: default_request_def parse_black)
  have l: "parse_hex_rgba (background default_request) (255, 255, 255, 255) = Inr (255, 255, 255, 255)"
    by (simp add: default_request_def parse_white)
  note q = default_floors(9)
  have st: "rounded_canvas default_request" "rounded_finders default_request" "dot_style default_request"
    "pixel_size default_request = 1080"
    by (simp_all add: default_request_def)
  from radii_truncate [OF g d l sample_rows_ok q, of sample_pil]
  obtain band eye corner margin dot fin dat ops where
    band: "band = \<lfloor>fmul (finder_round_ratio default_request) (of_int (gS g))\<rfloor>"
    and eye: "eye = \<lfloor>fmul (fmul (finder_round_ratio default_request) (3 / 2)) (of_int (gS g))\<rfloor>"
    and corner: "corner = \<lfloor>fmul (fmul (finder_round_ratio default_request) (of_int (gS g))) 2\<rfloor>"
    and margin: "margin = (if dot_margin default_request < 0 then 0
                  else if lit (49 / 100) < dot_margin default_request then lit (49 / 100)
                  else dot_margin default_request)"
    and dot: "dot = \<lfloor>fmul (of_int (gS g)) (fsub (1 / 2) margin)\<rfloor>"
    and ops0: "ops = RoundedRectangle (offset g, offset g, offset g + render_px g, offset g + render_px g)
                (if rounded_canvas default_request then corner else 0) (255, 255, 255, 255)
              # fin @ dat @ hole_ops default_request g (255, 255, 255, 255) @ logo_ops sample_pil default_request g"
    and calls: "draw_calls sample_pil default_request sample_matrix = Inr ops"
    and img0: "draw_qr sample_pil default_request sample_matrix
                 = Inr (foldl (paint sample_pil) (new_image (pixel_size default_request)) ops)"
    and fin0: "rounded_finders default_request \<longrightarrow> fin =
           concat (map (\<lambda>(t, l).
               [Rectangle (rect_for_block g (t - 1) (l - 1) 9) (255, 255, 255, 255),
                RoundedRectangle (rect_for_block g t l 7) band (0, 0, 0, 255),
                RoundedRectangle (rect_for_block g (t + 1) (l + 1) 5) band (255, 255, 255, 255),
                RoundedRectangle (rect_for_block g (t + 2) (l + 2) 3) eye (0, 0, 0, 255)])
             [(0, 0), (0, gN g - 7), (gN g - 7, 0)])"
    and dat0: "dot_style default_request \<longrightarrow> dat =
           map (\<lambda>(r, c).
               Ellipse (offset g + (gB g + int c) * gS g + gS g div 2 - dot,
                        offset g + (gB g + int r) * gS g + gS g div 2 - dot,
                        offset g + (gB g + int c) * gS g + gS g div 2 + dot,
                        offset g + (gB g + int r) * gS g + gS g div 2 + dot) (0, 0, 0, 255))
             (data_cells sample_matrix)"
    by (elim exE conjE) (rule that)
  have band16: "band = 16" and eye24: "eye = 24" and corner33: "corner = 33"
    using band eye corner by (simp_all only: gs default_floors)
  have "margin = dot_margin default_request" using margin default_floors(6,7) by simp
  then have dot11: "dot = 11" using dot by (simp only: gs default_floors)
  have ops: "ops = RoundedRectangle (3, 3, 1076, 1076) 33 (255, 255, 255, 255)
              # fin @ dat @ hole_ops default_request g (255, 255, 255, 255) @ logo_ops sample_pil default_request g"
    using ops0 by (simp add: gs st corner33)
  have img: "draw_qr sample_pil default_request sample_matrix = Inr (foldl (paint sample_pil) (new_image 1080) ops)"
    using img0 by (simp only: st)
  have fin: "fin =
       [Rectangle (rect_for_block g (- 1) (- 1) 9) (255, 255, 255, 255),
        RoundedRectangle (rect_for_block g 0 0 7) 16 (0, 0, 0, 255),
        RoundedRectangle (rect_for_block g 1 1 5) 16 (255, 255, 255, 255),
        RoundedRectangle (rect_for_block g 2 2 3) 24 (0, 0, 0, 255),
        Rectangle (rect_for_block g (- 1) 13 9) (255, 255, 255, 255),
        RoundedRectangle (rect_for_block g 0 14 7) 16 (0, 0, 0, 255),
        RoundedRectangle (rect_for_block g 1 15 5) 16 (255, 255, 255, 255),
        RoundedRectangle (rect_for_block g 2 16 3) 24 (0, 0, 0, 255),
        Rectangle (rect_for_block g 13 (- 1) 9) (255, 255, 255, 255),
        RoundedRectangle (rect_for_block g 14 0 7) 16 (0, 0, 0, 255),
        RoundedRectangle (rect_for_block g 15 1 5) 16 (255, 255, 255, 255),
        RoundedRectangle (rect_for_block g 16 2 3) 24 (0, 0, 0, 255)]"
    using fin0 st(2) by (simp add: gs band16 eye24)
  have dat: "dat = map (\<lambda>(r, c).
               Ellipse (3 + (4 + int c) * 37 + 37 div 2 - 11,
                        3 + (4 + int r) * 37 + 37 div 2 - 11,
                        3 + (4 + int c) * 37 + 37 div 2 + 11,
                        3 + (4 + int r) * 37 + 37 div 2 + 11) (0, 0, 0, 255))
             (data_cells sample_matrix)"
    using dat0 st(3) by (simp only: gs dot11 simp_thms)
  have n0: "ops ! 0 = RoundedRectangle (3, 3, 1076, 1076) 33 (255, 255, 255, 255)"
    by (simp add: ops)
  have n234: "ops ! 2 = RoundedRectangle (151, 151, 410, 410) 16 (0, 0, 0, 255)"
    "ops ! 3 = RoundedRectangle (188, 188, 373, 373) 16 (255, 255, 255, 255)"
    "ops ! 4 = RoundedRectangle (225, 225, 336, 336) 24 (0, 0, 0, 255)"
    by (simp_all add: ops fin g_def sample_geom)
  have "(\<lambda>(r, c).
               Ellipse (3 + (4 + int c) * 37 + 37 div 2 - 11,
                        3 + (4 + int r) * 37 + 37 div 2 - 11,
                        3 + (4 + int c) * 37 + 37 div 2 + 11,
                        3 + (4 + int r) * 37 + 37 div 2 + 11) (0, 0, 0, 255)) (10, 10) \<in> set dat"
    unfolding dat set_map using sample_cell_10_10 by (rule imageI)
  then have e: "Ellipse (528, 528, 550, 550) (0, 0, 0, 255) \<in> set ops"
    by (simp add: ops)
  define req2 where "req2 = default_request\<lparr>dot_margin := 3 / 4\<rparr>"
  have g2: "resolve req2 sample_matrix = Inr g"
    unfolding g_def by (rule resolve_sample) (simp_all add: req2_def default_request_def)
  have d2: "parse_hex_rgba (foreground req2) (0, 0, 0, 255) = Inr (0, 0, 0, 255)"
    by (simp add: req2_def default_request_def parse_black)
  have l2: "parse_hex_rgba (background req2) (255, 255, 255, 255) = Inr (255, 255, 255, 255)"
    by (simp add: req2_def default_request_def parse_white)
  have q2: "0 \<le> finder_round_ratio req2" using q by (simp add: req2_def)
  have st2: "dot_style req2" "dot_margin req2 = 3 / 4" by (simp_all add: req2_def default_request_def)
  from radii_truncate [OF g2 d2 l2 sample_rows_ok q2, of sample_pil]
  obtain c2 margin2 dot2 fin2 dat2 ops2 where
    margin2: "margin2 = (if dot_margin req2 < 0 then 0
                  else if lit (49 / 100) < dot_margin req2 then lit (49 / 100)
                  else dot_margin req2)"
    and dot2: "dot2 = \<lfloor>fmul (of_int (gS g)) (fsub (1 / 2) margin2)\<rfloor>"
    and ops2: "ops2 = RoundedRectangle (offset g, offset g, offset g + render_px g, offset g + render_px g)
                (if rounded_canvas req2 then c2 else 0) (255, 255, 255, 255)
              # fin2 @ dat2 @ hole_ops req2 g (255, 255, 255, 255) @ logo_ops sample_pil req2 g"
    and calls2: "draw_calls sample_pil req2 sample_matrix = Inr ops2"
    and dat20: "dot_style req2 \<longrightarrow> dat2 =
           map (\<lambda>(r, c).
               Ellipse (offset g + (gB g + int c) * gS g + gS g div 2 - dot2,
                        offset g + (gB g + int r) * gS g + gS g div 2 - dot2,
                        offset g + (gB g + int c) * gS g + gS g div 2 + dot2,
                        offset g + (gB g + int r) * gS g + gS g div 2 + dot2) (0, 0, 0, 255))
             (data_cells sample_matrix)"
    by (elim exE conjE) (rule that)
  have "margin2 = lit (49 / 100)" using margin2 default_floors(8) by (simp add: st2)
  then have dot0: "dot2 = 0" using dot2 by (simp only: gs default_floors)
  have dat2: "dat2 = map (\<lambda>(r, c).
               Ellipse (3 + (4 + int c) * 37 + 37 div 2 - 0,
                        3 + (4 + int r) * 37 + 37 div 2 - 0,
                        3 + (4 + int c) * 37 + 37 div 2 + 0,
                        3 + (4 + int r) * 37 + 37 div 2 + 0) (0, 0, 0, 255))
             (data_cells sample_matrix)"
    using dat20 st2(1) by (simp only: gs dot0 simp_thms)
  have "(\<lambda>(r, c).
               Ellipse (3 + (4 + int c) * 37 + 37 div 2 - 0,
                        3 + (4 + int r) * 37 + 37 div 2 - 0,
                        3 + (4 + int c) * 37 + 37 div 2 + 0,
                        3 + (4 + int r) * 37 + 37 div 2 + 0) (0, 0, 0, 255)) (10, 10) \<in> set dat2"
    unfolding dat2 set_map using sample_cell_10_10 by (rule imageI)
  then have e2: "Ellipse (539, 539, 539, 539) (0, 0, 0, 255) \<in> set ops2"
    by (simp add: ops2)
  have A: "\<exists>ops. draw_calls sample_pil default_request sample_matrix = Inr ops
         \<and> draw_qr sample_pil default_request sample_matrix
               = Inr (foldl (paint sample_pil) (new_image 1080) ops)
         \<and> ops ! 0 = RoundedRectangle (3, 3, 1076, 1076) 33 (255, 255, 255, 255)
         \<and> ops ! 2 = RoundedRectangle (151, 151, 410, 410) 16 (0, 0, 0, 255)
         \<and> ops ! 3 = RoundedRectangle (188, 188, 373, 373) 16 (255, 255, 255, 255)
         \<and> ops ! 4 = RoundedRectangle (225, 225, 336, 336) 24 (0, 0, 0, 255)
         \<and> Ellipse (528, 528, 550, 550) (0, 0, 0, 255) \<in> set ops"
    using calls img n0 n234 e by (intro exI [of _ ops]) simp
  have B: "\<exists>ops. draw_calls sample_pil (default_request\<lparr>dot_margin := 3 / 4\<rparr>) sample_matrix = Inr ops
         \<and> Ellipse (539, 539, 539, 539) (0, 0, 0, 255) \<in> set ops"
    using calls2 e2 unfolding req2_def by (intro exI [of _ ops2]) simp
  show ?thesis
    using g d l sample_rows_ok q A B unfolding g_def by simp
qed

text \<open>
  The claim as stated fails: with the default ratio 0.45 and module size 37 the expression
  is 16.65, whose rounding is 17, and the 7 by 7 layer of the first finder is drawn with
  the band radius 16.
\<close>

theorem band_radius_not_rounded:
  "rounded_finders default_request
   \<and> resolve default_request sample_matrix = Inr \<lparr>gN = 21, gB = 4, gS = 37, render_px = 1073, offset = 3\<rparr>
   \<and> rect_for_block \<lparr>gN = 21, gB = 4, gS = 37, render_px = 1073, offset = 3\<rparr> 0 0 7 = (151, 151, 410, 410)
   \<and> (\<exists>ops. draw_calls sample_pil default_request sample_matrix = Inr ops
         \<and> ops ! 2 = RoundedRectangle (151, 151, 410, 410) 16 (0, 0, 0, 255))
   \<and> round (finder_round_ratio default_request * of_int 37) = 17
   \<and> round (fmul (finder_round_ratio default_request) (of_int 37)) = 17"
proof -
  define g where "g = \<lparr>gN = 21, gB = 4, gS = 37, render_px = 1073, offset = 3\<rparr>"
  have g: "resolve default_request sample_matrix = Inr g"
    unfolding g_def by (rule resolve_sample) (simp_all add: default_request_def)
  have r: "r_band default_request g = 16" unfolding g_def by (rule default_radii)
  have rf: "rounded_finders default_request" by (simp add: default_request_def)
  have calls: "draw_calls sample_pil default_request sample_matrix =
     Inr (background_op default_request g (255, 255, 255, 255)
          # finder_ops default_request g (0, 0, 0, 255) (255, 255, 255, 255)
          @ map (data_op default_request g (0, 0, 0, 255)) (data_cells sample_matrix)
          @ hole_ops default_request g (255, 255, 255, 255) @ logo_ops sample_pil default_request g)"
    by (rule draw_calls_ok [OF g _ _ sample_rows_ok])
       (simp_all add: default_request_def parse_black parse_white)
  have box: "rect_for_block g 0 0 7 = (151, 151, 410, 410)" by (simp add: g_def sample_geom)
  have n2: "(background_op default_request g (255, 255, 255, 255)
          # finder_ops default_request g (0, 0, 0, 255) (255, 255, 255, 255)
          @ map (data_op default_request g (0, 0, 0, 255)) (data_cells sample_matrix)
          @ hole_ops default_request g (255, 255, 255, 255) @ logo_ops sample_pil default_request g) ! 2
       = RoundedRectangle (151, 151, 410, 410) 16 (0, 0, 0, 255)"
    by (simp add: finder_ops_def rf draw_finder_def Let_def r box)
  have a: "round (finder_round_ratio default_request * of_int 37) = 17" by code_simp
  have b: "round (fmul (finder_round_ratio default_request) (of_int 37)) = 17" by code_simp
  show ?thesis using rf g box calls n2 a b unfolding g_def by simp
qed

section \<open>Background in the quiet zone\<close>

lemma resolve_side21:
  assumes "length m = 21"
  shows "resolve default_request m = Inr \<lparr>gN = 21, gB = 4, gS = 37, render_px = 1073, offset = 3\<rparr>"
  using assms by (simp add: resolve_def default_request_def)

text \<open>
  Claim C7 does not hold of the code. The canvas starts transparent and the background is
  a rounded rectangle over the symbol square, so the corners of the quiet zone are not
  painted. For the default request (rounded canvas, white background, no hole, no logo) and
  any symbol of side 21, as the payload \<open>Hello\<close> gives, the module size is 37, the symbol
  square starts at pixel 3 and the corner radius is 33. Pixel \<open>(10, 10)\<close> lies in the
  corner of the quiet zone, farther than 34 from the centre \<open>(36, 36)\<close> of the corner arc:
  with any library that leaves such a pixel out of a rounded rectangle, no call paints it,
  and it is \<open>(0, 0, 0, 0)\<close> in the returned image, not white.
\<close>

theorem default_corner_transparent:
  assumes "rounded_rect_ok P" and "length m = 21" and "rows_ok m"
  shows "parse_hex_rgba (background default_request) (255, 255, 255, 255) = Inr (255, 255, 255, 255)
       \<and> pixel_at (draw_qr P default_request m) (10, 10) = Some (0, 0, 0, 0)"
proof -
  define g where "g = \<lparr>gN = 21, gB = 4, gS = 37, render_px = 1073, offset = 3\<rparr>"
  have len: "21 \<le> length m" using assms(2) by simp
  have g: "resolve default_request m = Inr g"
    unfolding g_def using assms(2) by (rule resolve_side21)
  have d: "parse_hex_rgba (foreground default_request) (0, 0, 0, 255) = Inr (0, 0, 0, 255)"
    by (simp add: default_request_def parse_black)
  have l: "parse_hex_rgba (background default_request) (255, 255, 255, 255) = Inr (255, 255, 255, 255)"
    by (simp add: default_request_def parse_white)
  have h: "\<not> hole default_request" and u: "\<not> use_logo default_request"
    by (simp_all add: default_request_def)
  have q: "quiet_corner g (10, 10)" by (simp add: quiet_corner_def g_def)
  from draw_qr_returns [OF g d l assms(3), of P]
  obtain img where img: "draw_qr P default_request m = Inr img"
    and sz: "width img = pixel_size default_request" "height img = pixel_size default_request"
    by blast
  have ho: "hole_ops default_request g (255, 255, 255, 255) = []"
    using h by (simp add: hole_ops_def)
  have lo: "logo_ops P default_request g = []"
    using u by (intro logo_ops_unused) simp
  have "(33 + 1) * (33 + 1) < (10 - (3 + 33)) * (10 - (3 + 33)) + (10 - (3 + 33)) * (10 - (3 + 33 :: int))"
    by simp
  then have "\<not> rounded_mask P (3, 3, 1076, 1076) 33 (10, 10)"
    using assms(1) unfolding rounded_rect_ok_def by (elim conjE allE [of _ 3] allE [of _ 1076] allE [of _ 33] allE [of _ 10]) simp
  then have bg: "\<not> covers P (background_op default_request g (255, 255, 255, 255)) (10, 10)"
    unfolding background_op_def g_def default_radii by simp
  have sep: "\<not> in_box (rect_for_block g (- 1) (- 1) 9) (10, 10)"
    by (simp add: rect_for_block_def g_def in_box_def Let_def)
  have "pix img (10, 10) = (0, 0, 0, 0)"
    using corner_pixel [OF valid_default len g l img ho lo q] bg sep by simp
  then have "pixel_at (draw_qr P default_request m) (10, 10) = Some (0, 0, 0, 0)"
    using img sz by (simp add: pixel_at_def in_canvas_def default_request_def)
  then show ?thesis using l by simp
qed

text \<open>The sample library and the sample matrix of side 21.\<close>

theorem default_corner_transparent_witness:
  "rounded_rect_ok sample_pil \<and> length sample_matrix = 21 \<and> rows_ok sample_matrix
   \<and> pixel_at (draw_qr sample_pil default_request sample_matrix) (10, 10) = Some (0, 0, 0, 0)"
  using default_corner_transparent [OF sample_pil_rounded sample_length sample_rows_ok]
    sample_pil_rounded sample_length sample_rows_ok by simp

section \<open>The hole\<close>




section \<open>The logo step\<close>

text \<open>
  Claim C9. For a request with \<open>use_logo\<close> and a logo payload: when the payload cannot be
  decoded as an image, the run is the run of the same request without a logo (the
  exception is swallowed inside \<open>draw_qr\<close>), so it returns the same raster. When it can,
  the calls of the run are those of the request without a logo followed by one composite,
  and the returned raster is the raster of the request without a logo with the thumbnail
  for the side \<open>int(1080 * 0.20) = 216\<close> composited on it, its centre at the symbol's pixel
  centre \<open>offset + render_px div 2\<close>; each side of the thumbnail is at most a fifth of the
  canvas size.
\<close>

theorem logo_compositor:
  assumes "valid_request req" and "thumbnail_ok P" and "use_logo req" and "logo_base64 req = Some s"
  shows "(load_logo P (last_field s) = None \<longrightarrow>
            draw_qr P req m = draw_qr P (req\<lparr>logo_base64 := None\<rparr>) m)
       \<and> (\<forall>logo small g. s \<noteq> [] \<and> load_logo P (last_field s) = Some logo
              \<and> thumbnail P logo (216, 216) = Some small \<and> resolve req m = Inr g \<longrightarrow>
            draw_calls P req m =
              bind_err (draw_calls P (req\<lparr>logo_base64 := None\<rparr>) m) (\<lambda>ops.
                Inr (ops @ [AlphaComposite small
                              (offset g + render_px g div 2 - width small div 2,
                               offset g + render_px g div 2 - height small div 2)]))
            \<and> draw_qr P req m =
              bind_err (draw_qr P (req\<lparr>logo_base64 := None\<rparr>) m) (\<lambda>img0.
                Inr (paint P img0 (AlphaComposite small
                                     (offset g + render_px g div 2 - width small div 2,
                                      offset g + render_px g div 2 - height small div 2))))
            \<and> 5 * width small \<le> pixel_size req \<and> 5 * height small \<le> pixel_size req)"
proof (intro conjI impI allI)
  assume n: "load_logo P (last_field s) = None"
  have "draw_calls P req m = draw_calls P (req\<lparr>logo_base64 := None\<rparr>) m"
    unfolding draw_calls_def
    by (simp add: logo_ops_None logo_ops_undecodable [OF assms(4) n] without_logo_field)
  then show "draw_qr P req m = draw_qr P (req\<lparr>logo_base64 := None\<rparr>) m"
    by (simp add: draw_qr_def)
next
  fix logo small g
  assume h: "s \<noteq> [] \<and> load_logo P (last_field s) = Some logo
              \<and> thumbnail P logo (216, 216) = Some small \<and> resolve req m = Inr g"
  define comp where "comp = AlphaComposite small
                              (offset g + render_px g div 2 - width small div 2,
                               offset g + render_px g div 2 - height small div 2)"
  have sz: "pixel_size req = 1080" using assms(1) by (simp add: valid_request_def)
  then have ms: "py_int (fmul (of_int (pixel_size req)) (lit (1 / 5))) = 216"
    using max_side_1080 by simp
  have lo: "logo_ops P req g = [comp]"
    using h assms(3,4) by (simp add: logo_ops_def ms Let_def comp_def)
  have g: "resolve req m = Inr g" using h by simp
  show calls: "draw_calls P req m =
      bind_err (draw_calls P (req\<lparr>logo_base64 := None\<rparr>) m) (\<lambda>ops. Inr (ops @ [comp]))"
    unfolding draw_calls_def
    by (simp add: bind_err_def g lo logo_ops_None without_logo_field split: sum.splits)
  show "draw_qr P req m =
      bind_err (draw_qr P (req\<lparr>logo_base64 := None\<rparr>) m) (\<lambda>img0. Inr (paint P img0 comp))"
    unfolding draw_qr_def calls by (simp add: bind_err_def split: sum.splits)
  from assms(2) h have "width small \<le> 216 \<and> height small \<le> 216"
    unfolding thumbnail_ok_def by blast
  then show "5 * width small \<le> pixel_size req" "5 * height small \<le> pixel_size req"
    using sz by simp_all
qed

text \<open>
  The default request with a payload that is no image (the base64 of the text
  \<open>not an image\<close>), and with the PNG file of the blue square: the logo is pasted at
  \<open>(507, 507)\<close>, and the pixel at the canvas centre is blue.
\<close>

theorem logo_compositor_witness:
  "valid_request (default_request\<lparr>use_logo := True, logo_base64 := Some ''bm90IGFuIGltYWdl''\<rparr>)
   \<and> thumbnail_ok sample_pil
   \<and> load_logo sample_pil (last_field ''bm90IGFuIGltYWdl'') = None
   \<and> draw_qr sample_pil (default_request\<lparr>use_logo := True, logo_base64 := Some ''bm90IGFuIGltYWdl''\<rparr>) sample_matrix
       = draw_qr sample_pil (default_request\<lparr>use_logo := True, logo_base64 := None\<rparr>) sample_matrix
   \<and> load_logo sample_pil (last_field sample_payload) = Some sample_logo
   \<and> thumbnail sample_pil sample_logo (216, 216) = Some sample_logo
   \<and> draw_qr sample_pil (default_request\<lparr>use_logo := True, logo_base64 := Some sample_payload\<rparr>) sample_matrix
       = bind_err (draw_qr sample_pil (default_request\<lparr>use_logo := True, logo_base64 := None\<rparr>) sample_matrix)
           (\<lambda>img0. Inr (paint sample_pil img0 (AlphaComposite sample_logo (507, 507))))
   \<and> pixel_at (draw_qr sample_pil (default_request\<lparr>use_logo := True, logo_base64 := Some sample_payload\<rparr>)
         sample_matrix) (540, 540) = Some (0, 0, 255, 255)"
proof -
  have v: "valid_request (default_request\<lparr>use_logo := True, logo_base64 := Some x\<rparr>)" for x
    using valid_default by (simp add: valid_request_def)
  have n: "load_logo sample_pil (last_field ''bm90IGFuIGltYWdl'') = None"
    by (simp add: sample_pil_def last_field_def sample_payload_def)
  have a: "draw_qr sample_pil (default_request\<lparr>use_logo := True, logo_base64 := Some ''bm90IGFuIGltYWdl''\<rparr>) sample_matrix
       = draw_qr sample_pil (default_request\<lparr>use_logo := True, logo_base64 := None\<rparr>) sample_matrix"
    using logo_compositor [where s = "''bm90IGFuIGltYWdl''" and m = sample_matrix, OF v sample_pil_thumb] n
    by simp
  have lf: "last_field sample_payload = sample_payload"
    by (simp add: last_field_def sample_payload_def)
  have ne: "sample_payload \<noteq> []" by (simp add: sample_payload_def)
  have l: "load_logo sample_pil (last_field sample_payload) = Some sample_logo"
    by (simp add: lf sample_pil_def)
  have t: "thumbnail sample_pil sample_logo (216, 216) = Some sample_logo"
    by (simp add: sample_pil_def nearest_thumbnail_def sample_logo_def)
  have g: "resolve (default_request\<lparr>use_logo := True, logo_base64 := Some sample_payload\<rparr>) sample_matrix
      = Inr \<lparr>gN = 21, gB = 4, gS = 37, render_px = 1073, offset = 3\<rparr>"
    by (rule resolve_sample) (simp_all add: default_request_def)
  have b: "draw_qr sample_pil (default_request\<lparr>use_logo := True, logo_base64 := Some sample_payload\<rparr>) sample_matrix
       = bind_err (draw_qr sample_pil (default_request\<lparr>use_logo := True, logo_base64 := None\<rparr>) sample_matrix)
           (\<lambda>img0. Inr (paint sample_pil img0 (AlphaComposite sample_logo (507, 507))))"
    using logo_compositor [where s = sample_payload and m = sample_matrix, OF v sample_pil_thumb] ne l t g
    by (simp add: sample_logo_def)
  obtain img0 where img0: "draw_qr sample_pil (default_request\<lparr>use_logo := True, logo_base64 := None\<rparr>) sample_matrix = Inr img0"
    and sz: "width img0 = 1080" "height img0 = 1080"
    by (rule draw_qr_sample [of "default_request\<lparr>use_logo := True, logo_base64 := None\<rparr>" sample_pil])
       (simp_all add: default_request_def)
  have c: "pixel_at (draw_qr sample_pil (default_request\<lparr>use_logo := True, logo_base64 := Some sample_payload\<rparr>)
         sample_matrix) (540, 540) = Some (0, 0, 255, 255)"
    unfolding b img0
    by (simp add: bind_err_def pixel_at_def in_canvas_def sz pix_paint)
       (simp add: sample_logo_def sample_pil_def)
  show ?thesis using v n a l t b c sample_pil_thumb by simp
qed

section \<open>The margin around the symbol\<close>

text \<open>
  Claim C10. For a valid request (so the quiet zone is at least one module) and a matrix
  of side at least 21, every pixel outside the symbol square
  \<open>[offset, offset + render_px] x [offset, offset + render_px]\<close> is \<open>(0, 0, 0, 0)\<close> in the
  returned image: the canvas starts transparent and the background, the finder layers,
  the data modules, the hole and the logo are all drawn inside the square.
\<close>

theorem margin_transparent:
  assumes "valid_request req" and "thumbnail_ok P" and "21 \<le> length m"
    and "resolve req m = Inr g" and "draw_qr P req m = Inr img"
    and "\<not> in_box (symbol_square g) p"
  shows "pix img p = (0, 0, 0, 0)"
proof -
  note v = resolve_valid [OF assms(1,4)]
  from assms(5) obtain ops where calls: "draw_calls P req m = Inr ops"
    and img: "img = foldl (paint P) (new_image (pixel_size req)) ops"
    by (rule draw_qr_Inr)
  from calls obtain g' DARK LIGHT where g': "resolve req m = Inr g'"
    and ops: "ops = background_op req g' LIGHT # finder_ops req g' DARK LIGHT
          @ map (data_op req g' DARK) (data_cells m)
          @ hole_ops req g' LIGHT @ logo_ops P req g'"
    by (rule draw_calls_Inr)
  from g' assms(4) have [simp]: "g' = g" by simp
  have N: "7 \<le> gN g" using v(4) assms(3) by simp
  have "\<not> covers P op p" if "op \<in> set ops" for op
  proof
    assume c: "covers P op p"
    from that consider "op = background_op req g LIGHT"
      | "op \<in> set (finder_ops req g DARK LIGHT)"
      | "op \<in> set (map (data_op req g DARK) (data_cells m))"
      | "op \<in> set (hole_ops req g LIGHT)"
      | "op \<in> set (logo_ops P req g)"
      unfolding ops by auto
    then have "in_box (symbol_square g) p"
    proof cases
      case 1
      then show ?thesis using c background_in_square by simp
    next
      case 2
      then show ?thesis using c v N by (intro finder_ops_in_square [of g op req DARK LIGHT P p]) simp_all
    next
      case 3
      then show ?thesis using c by (intro data_op_in_square [OF assms(1,4)])
    next
      case 4
      then show ?thesis using c v by (intro hole_ops_in_square [of g op req LIGHT P p]) simp_all
    next
      case 5
      then show ?thesis using c v by (intro logo_ops_in_square [OF assms(1,2)])
    qed
    with assms(6) show False by simp
  qed
  then have "pix img p = pix (new_image (pixel_size req)) p"
    unfolding img by (intro foldl_paint_not_covered) simp
  then show ?thesis by (simp add: new_image_def)
qed

text \<open>The default request on the sample matrix has offset 3; pixel \<open>(1, 1)\<close> is transparent.\<close>

theorem margin_transparent_witness:
  "valid_request default_request \<and> thumbnail_ok sample_pil \<and> 21 \<le> length sample_matrix
   \<and> resolve default_request sample_matrix
       = Inr \<lparr>gN = 21, gB = 4, gS = 37, render_px = 1073, offset = 3\<rparr>
   \<and> \<not> in_box (symbol_square \<lparr>gN = 21, gB = 4, gS = 37, render_px = 1073, offset = 3\<rparr>) (1, 1)
   \<and> pixel_at (draw_qr sample_pil default_request sample_matrix) (1, 1) = Some (0, 0, 0, 0)"
proof -
  have g: "resolve default_request sample_matrix
       = Inr \<lparr>gN = 21, gB = 4, gS = 37, render_px = 1073, offset = 3\<rparr>"
    by (rule resolve_sample) (simp_all add: default_request_def)
  have out: "\<not> in_box (symbol_square \<lparr>gN = 21, gB = 4, gS = 37, render_px = 1073, offset = 3\<rparr>) (1, 1)"
    by (simp add: symbol_square_def in_box_def)
  have len: "21 \<le> length sample_matrix" by (simp add: sample_length)
  obtain img where img: "draw_qr sample_pil default_request sample_matrix = Inr img"
    and sz: "width img = pixel_size default_request" "height img = pixel_size default_request"
    using draw_qr_returns [OF g _ _ sample_rows_ok, of "(0, 0, 0, 255)" "(255, 255, 255, 255)" sample_pil]
    by (auto simp: default_request_def parse_black parse_white)
  have "pix img (1, 1) = (0, 0, 0, 0)"
    using margin_transparent [OF valid_default sample_pil_thumb len g img out] .
  then have "pixel_at (draw_qr sample_pil default_request sample_matrix) (1, 1) = Some (0, 0, 0, 0)"
    using img sz by (simp add: pixel_at_def in_canvas_def default_request_def)
  then show ?thesis using valid_default sample_pil_thumb len g out by simp
qed

end
